theory Spec2Isabelle
  imports Main
begin

section \<open>Configuration (src/config/imageConfig.ts, src/types/image.type.ts)\<close>

definition UPLOAD_DIR :: string where
  "UPLOAD_DIR = ''./images/uploads''"

definition OUTPUT_DIR :: string where
  "OUTPUT_DIR = ''./images/processed''"

definition DEFAULT_FORMAT :: string where
  "DEFAULT_FORMAT = ''webp''"

text \<open>
  \<^verbatim>\<open>interface ImageConfigType { width: number; height: number; suffix: string }\<close>
\<close>

record ImageConfigType =
  cfg_width :: nat
  cfg_height :: nat
  cfg_suffix :: string

text \<open>
  \<^verbatim>\<open>enum ImageType { GAME = 'game', PROMOTION = 'promotion' }\<close>: at run time an image
  type is the string the request carries, and \<open>ImageConfig\<close> is an object keyed by the
  two enum values, in this order.
\<close>

definition GAME :: string where
  "GAME = ''game''"

definition PROMOTION :: string where
  "PROMOTION = ''promotion''"

definition ImageConfig :: "(string \<times> ImageConfigType) list" where
  "ImageConfig =
     [(GAME, \<lparr>cfg_width = 184, cfg_height = 256, cfg_suffix = ''thumbnail''\<rparr>),
      (PROMOTION, \<lparr>cfg_width = 361, cfg_height = 240, cfg_suffix = ''resized''\<rparr>)]"

text \<open>\<^verbatim>\<open>Object.keys(ImageConfig).includes(imageType)\<close>\<close>

definition isValidImageType :: "string \<Rightarrow> bool" where
  "isValidImageType imageType = (imageType \<in> set (map fst ImageConfig))"

text \<open>
  \<^verbatim>\<open>interface CropOption { x; y; width; height; outputFormat? }\<close>. The four numbers are
  modelled as mathematical integers; an absent \<open>outputFormat\<close> is \<open>None\<close>.
\<close>

record CropOption =
  crop_x :: int
  crop_y :: int
  crop_width :: int
  crop_height :: int
  outputFormat :: "string option"

section \<open>Node's path module\<close>

text \<open>
  \<open>path.join\<close> and \<open>path.parse\<close> depend on the host platform: on POSIX the only
  separator is the forward slash; on Windows both slashes separate and the backslash is
  the one written. The program only joins onto the relative constants \<open>UPLOAD_DIR\<close>
  and \<open>OUTPUT_DIR\<close> and only parses the name multer stored the upload under. The
  model below follows \<open>path.parse\<close> on every path of both platforms and \<open>path.join\<close>
  of POSIX on every path. Of \<open>path.win32.join\<close> it leaves out the roots (a drive
  letter, a UNC prefix) and the guard against a colon that ends a segment, none of which
  a path that starts with \<open>./images\<close> and goes on with a file name without colon has.
\<close>

datatype platform = Posix | Win32

definition backslash :: char where
  "backslash = CHR 0x5C"

definition isPathSeparator :: "platform \<Rightarrow> char \<Rightarrow> bool" where
  "isPathSeparator pf c = (c = CHR ''/'' \<or> (pf = Win32 \<and> c = backslash))"

definition path_sep :: "platform \<Rightarrow> char" where
  "path_sep pf = (case pf of Posix \<Rightarrow> CHR ''/'' | Win32 \<Rightarrow> backslash)"

text \<open>The segments of a path between its separators (an empty path has one, empty).\<close>

fun segments :: "(char \<Rightarrow> bool) \<Rightarrow> string \<Rightarrow> string list" where
  "segments is_sep [] = [[]]"
| "segments is_sep (c # cs) =
     (if is_sep c then [] # segments is_sep cs
      else (case segments is_sep cs of
              [] \<Rightarrow> [[c]]
            | s # ss \<Rightarrow> (c # s) # ss))"

text \<open>
  \<open>normalizeString\<close> of Node, segment by segment: an empty segment and \<open>.\<close> are
  dropped; \<open>..\<close> removes the segment before it, unless there is none or it is \<open>..\<close>
  itself, in which case it is kept when the path may climb above its start.
\<close>

fun normalizeSegments :: "bool \<Rightarrow> string list \<Rightarrow> string list \<Rightarrow> string list" where
  "normalizeSegments allowAboveRoot res [] = res"
| "normalizeSegments allowAboveRoot res (s # ss) =
     (if s = [] \<or> s = ''.'' then normalizeSegments allowAboveRoot res ss
      else if s = ''..'' then
        (if res \<noteq> [] \<and> last res \<noteq> ''..''
           then normalizeSegments allowAboveRoot (butlast res) ss
         else if allowAboveRoot
           then normalizeSegments allowAboveRoot (res @ [''..'']) ss
         else normalizeSegments allowAboveRoot res ss)
      else normalizeSegments allowAboveRoot (res @ [s]) ss)"

fun joinSegments :: "char \<Rightarrow> string list \<Rightarrow> string" where
  "joinSegments sep [] = []"
| "joinSegments sep [s] = s"
| "joinSegments sep (s # t # ss) = s @ sep # joinSegments sep (t # ss)"

definition path_normalize :: "platform \<Rightarrow> string \<Rightarrow> string" where
  "path_normalize pf p =
     (if p = [] then ''.''
      else
        let isAbsolute = isPathSeparator pf (hd p);
            trailingSeparator = isPathSeparator pf (last p);
            tail = joinSegments (path_sep pf)
                     (normalizeSegments (\<not> isAbsolute) [] (segments (isPathSeparator pf) p));
            tail' = (if tail = [] \<and> \<not> isAbsolute then ''.'' else tail);
            body = (if trailingSeparator \<and> \<not> (tail = [] \<and> isAbsolute)
                    then tail' @ [path_sep pf] else tail')
        in if isAbsolute then path_sep pf # (if tail = [] then [] else body) else body)"

text \<open>\<open>path.join(a, b)\<close>: the non-empty arguments joined by the separator, normalised.\<close>

definition path_join :: "platform \<Rightarrow> string \<Rightarrow> string \<Rightarrow> string" where
  "path_join pf a b =
     (if a = [] \<and> b = [] then ''.''
      else if a = [] then path_normalize pf b
      else if b = [] then path_normalize pf a
      else path_normalize pf (a @ path_sep pf # b))"

text \<open>
  The stem of the last segment of a path, trailing separators ignored: the segment without
  its extension. The extension starts at the last dot, unless that dot opens the segment
  or the segment is \<open>..\<close>.
\<close>

definition path_base :: "platform \<Rightarrow> string \<Rightarrow> string" where
  "path_base pf p =
     rev (takeWhile (\<lambda>c. \<not> isPathSeparator pf c) (dropWhile (isPathSeparator pf) (rev p)))"

definition lastDot :: "string \<Rightarrow> nat" where
  "lastDot b = length b - Suc (length (takeWhile (\<lambda>c. c \<noteq> CHR ''.'') (rev b)))"

definition path_stem :: "platform \<Rightarrow> string \<Rightarrow> string" where
  "path_stem pf p =
     (let b = path_base pf p
      in if lastDot b = 0 \<or> b = ''..'' \<or> CHR ''.'' \<notin> set b then b
         else take (lastDot b) b)"

text \<open>
  The root \<open>path.win32.parse\<close> takes off a path before it looks for the name: a drive
  letter with its colon and the separator after it, if there is one; a UNC prefix, two
  separators, a server, separators, a share and the separator after it; or else one
  leading separator. \<open>win32RootEnd\<close> is the length of that root.
\<close>

definition isWindowsDeviceRoot :: "char \<Rightarrow> bool" where
  "isWindowsDeviceRoot c =
     (c \<in> set ''ABCDEFGHIJKLMNOPQRSTUVWXYZ'' \<or> c \<in> set ''abcdefghijklmnopqrstuvwxyz'')"

definition hasDriveRoot :: "string \<Rightarrow> bool" where
  "hasDriveRoot p =
     (case p of
        c # d # r \<Rightarrow> isWindowsDeviceRoot c \<and> d = CHR '':''
      | _ \<Rightarrow> False)"

definition uncRootEnd :: "string \<Rightarrow> nat" where
  "uncRootEnd p =
     (let afterSlashes = drop 2 p;
          server = takeWhile (\<lambda>c. \<not> isPathSeparator Win32 c) afterSlashes;
          afterServer = dropWhile (\<lambda>c. \<not> isPathSeparator Win32 c) afterSlashes;
          share = dropWhile (isPathSeparator Win32) afterServer;
          afterShare = dropWhile (\<lambda>c. \<not> isPathSeparator Win32 c) share
      in if server = [] \<or> afterServer = [] \<or> share = [] then 1
         else if afterShare = [] then length p
         else length p - length afterShare + 1)"

definition win32RootEnd :: "string \<Rightarrow> nat" where
  "win32RootEnd p =
     (case p of
        [] \<Rightarrow> 0
      | c # r \<Rightarrow>
          if isPathSeparator Win32 c
          then (case r of
                  [] \<Rightarrow> 1
                | d # r' \<Rightarrow> if isPathSeparator Win32 d then uncRootEnd p else 1)
          else if hasDriveRoot p
          then (case drop 2 p of
                  [] \<Rightarrow> 2
                | e # r' \<Rightarrow> if isPathSeparator Win32 e then 3 else 2)
          else 0)"

text \<open>
  \<open>path.parse(p).name\<close>. On Windows it is the stem of the path behind its root. On POSIX
  it is the stem of the path, but for the path \<open>/..\<close> (with or without slashes after it):
  the test for the segment \<open>..\<close> measures from the start of the string and not from the
  end of the root, so that this one path has the name \<open>.\<close> and the extension \<open>.\<close>.
\<close>

definition path_parse_name :: "platform \<Rightarrow> string \<Rightarrow> string" where
  "path_parse_name pf p =
     (case pf of
        Posix \<Rightarrow>
          if rev (dropWhile (isPathSeparator Posix) (rev p)) = ''/..'' then ''.''
          else path_stem Posix p
      | Win32 \<Rightarrow> path_stem Win32 (drop (win32RootEnd p) p))"

section \<open>The path resolver (image-processing.service.ts, getFilePaths)\<close>

text \<open>Of the uploaded file object the service reads the stored name only.\<close>

record MulterFile =
  filename :: string

text \<open>
  \<^verbatim>\<open>baseName.replace(/-[a-f0-9-]{36}$/, '')\<close>: the pattern is anchored at the end of
  the string, so it can only match the last 37 characters: a hyphen and then 36
  characters that are each a lower-case hexadecimal digit or a hyphen.
\<close>

definition isTokenChar :: "char \<Rightarrow> bool" where
  "isTokenChar c = (c \<in> set ''abcdef0123456789-'')"

definition isToken :: "string \<Rightarrow> bool" where
  "isToken t = (length t = 36 \<and> list_all isTokenChar t)"

definition hasTokenSuffix :: "string \<Rightarrow> bool" where
  "hasTokenSuffix s =
     (37 \<le> length s \<and> s ! (length s - 37) = CHR ''-'' \<and> isToken (drop (length s - 36) s))"

definition stripToken :: "string \<Rightarrow> string" where
  "stripToken s = (if hasTokenSuffix s then take (length s - 37) s else s)"

definition getFilePaths :: "platform \<Rightarrow> MulterFile \<Rightarrow> string \<times> string \<times> string" where
  "getFilePaths pf file =
     (let filePath = path_join pf UPLOAD_DIR (filename file);
          baseName = path_parse_name pf (filename file);
          fileBaseName = stripToken baseName;
          originalOutputPath = path_join pf UPLOAD_DIR (fileBaseName @ ''.'' @ DEFAULT_FORMAT)
      in (filePath, fileBaseName, originalOutputPath))"

text \<open>\<^verbatim>\<open>path.join(outputDir, `${fileBaseName}-${suffix}.${defaultFormat}`)\<close>\<close>

definition getOutputPath :: "platform \<Rightarrow> string \<Rightarrow> string \<Rightarrow> string \<Rightarrow> string \<Rightarrow> string" where
  "getOutputPath pf outputDir fileBaseName suffix defaultFormat =
     path_join pf outputDir (fileBaseName @ ''-'' @ suffix @ ''.'' @ defaultFormat)"

text \<open>
  The upload staging (the \<open>filename\<close> callback of the controller) stores an upload as
  \<^verbatim>\<open>`${fileName}-${uuid}${fileExt}`\<close>: the stem of the original name, a hyphen, the
  token, and the extension of the original name. Such a name has no separator, and its
  extension is empty or one dot followed by characters that are not dots; a stem without
  extension has no dot past its first character.
\<close>

definition noSeparator :: "platform \<Rightarrow> string \<Rightarrow> bool" where
  "noSeparator pf s = list_all (\<lambda>c. \<not> isPathSeparator pf c) s"

text \<open>A name that is one segment of a path: not empty, no separator, not a dot name.\<close>

definition isSimpleName :: "platform \<Rightarrow> string \<Rightarrow> bool" where
  "isSimpleName pf n = (noSeparator pf n \<and> n \<noteq> [] \<and> n \<noteq> ''.'' \<and> n \<noteq> ''..'')"

definition isExtensionOf :: "string \<Rightarrow> string \<Rightarrow> bool" where
  "isExtensionOf ext base =
     (if ext = [] then CHR ''.'' \<notin> set (tl base)
      else hd ext = CHR ''.'' \<and> CHR ''.'' \<notin> set (tl ext))"

section \<open>Exceptions, the file store and the codec\<close>

text \<open>
  What the service throws: a plain \<open>Error\<close> (also the class of the errors of \<open>fs\<close> and of
  the codec) and the two HTTP exceptions of the framework, answered with status 400 and
  500. All three carry a message, which is all a handler reads of a caught error.
\<close>

datatype exn =
    Error string
  | BadRequestException string
  | InternalServerErrorException string

fun message :: "exn \<Rightarrow> string" where
  "message (Error m) = m"
| "message (BadRequestException m) = m"
| "message (InternalServerErrorException m) = m"

fun statusCode :: "exn \<Rightarrow> nat" where
  "statusCode (Error m) = 500"
| "statusCode (BadRequestException m) = 400"
| "statusCode (InternalServerErrorException m) = 500"

text \<open>
  The file store maps a path, as \<open>path.join\<close> wrote it, to the content of the file there.
  Directories are not part of it: \<open>ensureDirectoryExists\<close> creates a missing directory
  and touches no file, so a write into the output directory finds its directory.
\<close>

type_synonym 'b fs = "string \<Rightarrow> 'b option"

definition quoted :: "string \<Rightarrow> string" where
  "quoted p = CHR 0x27 # p @ [CHR 0x27]"

text \<open>\<^verbatim>\<open>fs.promises.access(p, F_OK)\<close> resolves when the file is there.\<close>

definition access :: "'b fs \<Rightarrow> string \<Rightarrow> bool" where
  "access fs p = (fs p \<noteq> None)"

definition readFile :: "'b fs \<Rightarrow> string \<Rightarrow> exn + 'b" where
  "readFile fs p =
     (case fs p of
        None \<Rightarrow> Inl (Error (''ENOENT: no such file or directory, open '' @ quoted p))
      | Some b \<Rightarrow> Inr b)"

definition unlinkAsync :: "'b fs \<Rightarrow> string \<Rightarrow> (exn + unit) \<times> 'b fs" where
  "unlinkAsync fs p =
     (case fs p of
        None \<Rightarrow> (Inl (Error (''ENOENT: no such file or directory, unlink '' @ quoted p)), fs)
      | Some b \<Rightarrow> (Inr (), fs(p := None)))"

text \<open>\<^verbatim>\<open>ensureFileExists\<close> of image-processing.util.ts\<close>

definition ensureFileExists :: "'b fs \<Rightarrow> string \<Rightarrow> exn + unit" where
  "ensureFileExists fs filePath =
     (if access fs filePath then Inr () else Inl (Error ''File not found''))"

text \<open>
  The codec (the sharp library) is a parameter of the service: each of its operations
  returns the encoded output or the message of the error it raises.
  \<^item> \<open>sharp_metadata\<close>: \<open>metadata()\<close>, the width and height it reports, either of which
    may be undefined;
  \<^item> \<open>sharp_webp\<close>: \<open>webp()\<close>, the input re-encoded as WebP;
  \<^item> \<open>sharp_resize\<close>: \<open>resize(width, height, {fit})\<close>, encoded in the format the
    output path's extension names;
  \<^item> \<open>sharp_toFormat\<close>: the message \<open>toFormat\<close> throws at once for a format it does not
    know;
  \<^item> \<open>sharp_extract\<close>: \<open>extract({left, top, width, height})\<close>, encoded in the given
    format.
\<close>

datatype fit = Fill | Inside

record 'b sharp =
  sharp_metadata :: "'b \<Rightarrow> string + (nat option \<times> nat option)"
  sharp_webp :: "'b \<Rightarrow> string + 'b"
  sharp_resize :: "'b \<Rightarrow> nat \<Rightarrow> nat \<Rightarrow> fit \<Rightarrow> string \<Rightarrow> string + 'b"
  sharp_toFormat :: "string \<Rightarrow> string option"
  sharp_extract :: "'b \<Rightarrow> int \<Rightarrow> int \<Rightarrow> int \<Rightarrow> int \<Rightarrow> string \<Rightarrow> string + 'b"

text \<open>\<open>sharp(path)\<close> reads its input when the pipeline runs and fails on a missing file.\<close>

definition sharpInput :: "'b fs \<Rightarrow> string \<Rightarrow> exn + 'b" where
  "sharpInput fs p =
     (case fs p of
        None \<Rightarrow> Inl (Error (''Input file is missing: '' @ p))
      | Some b \<Rightarrow> Inr b)"

text \<open>\<open>toFile(p)\<close>: a failed pipeline writes nothing, a successful one replaces the file.\<close>

definition toFile :: "'b fs \<Rightarrow> string \<Rightarrow> string + 'b \<Rightarrow> (exn + unit) \<times> 'b fs" where
  "toFile fs p out =
     (case out of
        Inl m \<Rightarrow> (Inl (Error m), fs)
      | Inr b \<Rightarrow> (Inr (), fs(p \<mapsto> b)))"

section \<open>The service (image-processing.service.ts)\<close>

text \<open>Decimal text of a number, as a template literal prints it.\<close>

definition digitChar :: "nat \<Rightarrow> char" where
  "digitChar d = ''0123456789'' ! d"

fun showNat :: "nat \<Rightarrow> string" where
  "showNat n = (if n < 10 then [digitChar n] else showNat (n div 10) @ [digitChar (n mod 10)])"

declare showNat.simps [simp del]

text \<open>
  The constructor:
  \<^verbatim>\<open>const port = this.configService.get<number>('PORT') ?? 3000;
  this.server = `http://localhost:${port}`;\<close>
\<close>

record ImageProcessingService =
  server :: string

definition newService :: "nat option \<Rightarrow> ImageProcessingService" where
  "newService configuredPort =
     (let port = (case configuredPort of None \<Rightarrow> 3000 | Some p \<Rightarrow> p)
      in \<lparr>server = ''http://localhost:'' @ showNat port\<rparr>)"

text \<open>
  \<^verbatim>\<open>convertToWebP\<close>: read the staged file; unless the canonical path is accessible,
  encode the buffer there; then unlink the staged file. An error at any step ends the
  function there.
\<close>

definition convertToWebP ::
  "'b sharp \<Rightarrow> 'b fs \<Rightarrow> string \<Rightarrow> string \<Rightarrow> (exn + unit) \<times> 'b fs" where
  "convertToWebP cd fs filePath originalOutputPath =
     (case readFile fs filePath of
        Inl e \<Rightarrow> (Inl e, fs)
      | Inr imageBuffer \<Rightarrow>
          (case (if access fs originalOutputPath then (Inr (), fs)
                 else toFile fs originalOutputPath (sharp_webp cd imageBuffer)) of
             (Inl e, fs1) \<Rightarrow> (Inl e, fs1)
           | (Inr u, fs1) \<Rightarrow> unlinkAsync fs1 filePath))"

text \<open>
  \<^verbatim>\<open>generateVariations\<close>. Reading the three fields of \<open>ImageConfig[imageType]\<close> throws a
  \<open>TypeError\<close> when the key is absent; its text is the engine's.
\<close>

definition destructureError :: string where
  "destructureError = ''Cannot destructure property of undefined''"

definition generateVariations ::
  "platform \<Rightarrow> 'b sharp \<Rightarrow> 'b fs \<Rightarrow> string \<Rightarrow> string \<Rightarrow> string \<Rightarrow> (exn + string) \<times> 'b fs" where
  "generateVariations pf cd fs fileBaseName filePath imageType =
     (case map_of ImageConfig imageType of
        None \<Rightarrow> (Inl (Error destructureError), fs)
      | Some cfg \<Rightarrow>
          (let outputPath =
                 getOutputPath pf OUTPUT_DIR fileBaseName (cfg_suffix cfg) DEFAULT_FORMAT;
               fitOption = (if imageType = PROMOTION then Fill else Inside)
           in case sharpInput fs filePath of
                Inl e \<Rightarrow> (Inl e, fs)
              | Inr input \<Rightarrow>
                  (case toFile fs outputPath
                          (sharp_resize cd input (cfg_width cfg) (cfg_height cfg)
                             fitOption outputPath) of
                     (Inl e, fs1) \<Rightarrow> (Inl e, fs1)
                   | (Inr u, fs1) \<Rightarrow> (Inr outputPath, fs1))))"

text \<open>
  The handler of both public methods:
  \<^verbatim>\<open>catch (error) { throw new InternalServerErrorException(`<prefix>${error.message}`) }\<close>
\<close>

definition catchAll :: "string \<Rightarrow> (exn + 'a) \<times> 's \<Rightarrow> (exn + 'a) \<times> 's" where
  "catchAll prefix r =
     (case r of
        (Inl e, s) \<Rightarrow> (Inl (InternalServerErrorException (prefix @ message e)), s)
      | (Inr v, s) \<Rightarrow> (Inr v, s))"

record UploadResult =
  original :: string
  variation :: string

text \<open>The body of the \<open>try\<close> block of \<^verbatim>\<open>processImage\<close>.\<close>

definition processImageTry ::
  "platform \<Rightarrow> 'b sharp \<Rightarrow> ImageProcessingService \<Rightarrow> 'b fs \<Rightarrow> string \<Rightarrow> string \<Rightarrow> string
     \<Rightarrow> string \<Rightarrow> (exn + UploadResult) \<times> 'b fs" where
  "processImageTry pf cd svc fs filePath fileBaseName originalOutputPath imageType =
     (if \<not> isValidImageType imageType
      then (Inl (BadRequestException (''Invalid image type: '' @ imageType)), fs)
      else
        (case convertToWebP cd fs filePath originalOutputPath of
           (Inl e, fs1) \<Rightarrow> (Inl e, fs1)
         | (Inr u, fs1) \<Rightarrow>
             (case generateVariations pf cd fs1 fileBaseName originalOutputPath imageType of
                (Inl e, fs2) \<Rightarrow> (Inl e, fs2)
              | (Inr outputPath, fs2) \<Rightarrow>
                  (Inr \<lparr>original = server svc @ ''/'' @ originalOutputPath,
                        variation = server svc @ ''/'' @ outputPath\<rparr>, fs2))))"

definition processImage ::
  "platform \<Rightarrow> 'b sharp \<Rightarrow> ImageProcessingService \<Rightarrow> 'b fs \<Rightarrow> MulterFile \<Rightarrow> string
     \<Rightarrow> (exn + UploadResult) \<times> 'b fs" where
  "processImage pf cd svc fs file imageType =
     (case getFilePaths pf file of
        (filePath, fileBaseName, originalOutputPath) \<Rightarrow>
          (case ensureFileExists fs filePath of
             Inl e \<Rightarrow> (Inl e, fs)
           | Inr u \<Rightarrow>
               catchAll ''Error processing image: ''
                 (processImageTry pf cd svc fs filePath fileBaseName originalOutputPath
                    imageType)))"

text \<open>
  A comparison with \<open>undefined\<close> is false, and a template literal prints it as
  \<open>undefined\<close>.
\<close>

definition exceeds :: "int \<Rightarrow> nat option \<Rightarrow> bool" where
  "exceeds a dimension = (case dimension of None \<Rightarrow> False | Some n \<Rightarrow> a > int n)"

definition showDimension :: "nat option \<Rightarrow> string" where
  "showDimension dimension = (case dimension of None \<Rightarrow> ''undefined'' | Some n \<Rightarrow> showNat n)"

definition invalidCropMessage :: string where
  "invalidCropMessage = ''Invalid crop dimensions (negative values are not allowed).''"

definition cropExceedsMessage :: "nat option \<Rightarrow> nat option \<Rightarrow> string" where
  "cropExceedsMessage imageWidth imageHeight =
     ''Crop area exceeds image dimensions. Image dimensions: ''
       @ showDimension imageWidth @ ''x'' @ showDimension imageHeight @ ''.''"

text \<open>
  The part of the \<open>try\<close> block of \<^verbatim>\<open>cropImage\<close> after the two checks: conversion, then
  extraction from the canonical file into the cropped path.
\<close>

definition cropConvertExtract ::
  "platform \<Rightarrow> 'b sharp \<Rightarrow> 'b fs \<Rightarrow> string \<Rightarrow> string \<Rightarrow> string
     \<Rightarrow> int \<Rightarrow> int \<Rightarrow> int \<Rightarrow> int \<Rightarrow> string \<Rightarrow> (exn + string) \<times> 'b fs" where
  "cropConvertExtract pf cd fs filePath fileBaseName originalOutputPath x y w h fmt =
     (case convertToWebP cd fs filePath originalOutputPath of
        (Inl e, fs1) \<Rightarrow> (Inl e, fs1)
      | (Inr u, fs1) \<Rightarrow>
          (let croppedFilePath = getOutputPath pf OUTPUT_DIR fileBaseName ''cropped'' fmt
           in case sharp_toFormat cd fmt of
                Some m \<Rightarrow> (Inl (Error m), fs1)
              | None \<Rightarrow>
                  (case sharpInput fs1 originalOutputPath of
                     Inl e \<Rightarrow> (Inl e, fs1)
                   | Inr canonical \<Rightarrow>
                       (case toFile fs1 croppedFilePath
                               (sharp_extract cd canonical x y w h fmt) of
                          (Inl e, fs2) \<Rightarrow> (Inl e, fs2)
                        | (Inr u, fs2) \<Rightarrow> (Inr croppedFilePath, fs2)))))"

text \<open>The body of the \<open>try\<close> block of \<^verbatim>\<open>cropImage\<close>.\<close>

definition cropImageTry ::
  "platform \<Rightarrow> 'b sharp \<Rightarrow> 'b fs \<Rightarrow> string \<Rightarrow> string \<Rightarrow> string
     \<Rightarrow> int \<Rightarrow> int \<Rightarrow> int \<Rightarrow> int \<Rightarrow> string \<Rightarrow> (exn + string) \<times> 'b fs" where
  "cropImageTry pf cd fs filePath fileBaseName originalOutputPath x y w h fmt =
     (case sharpInput fs filePath of
        Inl e \<Rightarrow> (Inl e, fs)
      | Inr input \<Rightarrow>
          (case sharp_metadata cd input of
             Inl m \<Rightarrow> (Inl (Error m), fs)
           | Inr (imageWidth, imageHeight) \<Rightarrow>
               if x < 0 \<or> y < 0 \<or> w \<le> 0 \<or> h \<le> 0
               then (Inl (BadRequestException invalidCropMessage), fs)
               else if exceeds (x + w) imageWidth \<or> exceeds (y + h) imageHeight
               then (Inl (BadRequestException (cropExceedsMessage imageWidth imageHeight)), fs)
               else cropConvertExtract pf cd fs filePath fileBaseName originalOutputPath
                      x y w h fmt))"

definition cropImage ::
  "platform \<Rightarrow> 'b sharp \<Rightarrow> 'b fs \<Rightarrow> MulterFile \<Rightarrow> CropOption \<Rightarrow> (exn + string) \<times> 'b fs" where
  "cropImage pf cd fs file cropOptions =
     (case getFilePaths pf file of
        (filePath, fileBaseName, originalOutputPath) \<Rightarrow>
          (let fmt = (case outputFormat cropOptions of None \<Rightarrow> DEFAULT_FORMAT | Some f \<Rightarrow> f)
           in case ensureFileExists fs filePath of
                Inl e \<Rightarrow> (Inl e, fs)
              | Inr u \<Rightarrow>
                  catchAll ''Error cropping image: ''
                    (cropImageTry pf cd fs filePath fileBaseName originalOutputPath
                       (crop_x cropOptions) (crop_y cropOptions)
                       (crop_width cropOptions) (crop_height cropOptions) fmt)))"

section \<open>Concrete data\<close>

text \<open>
  A small codec to run the service on concrete stores. A file is a picture with its
  width, height and container format, or bytes no decoder accepts. Re-encoding keeps the
  dimensions; extraction fails when the rectangle leaves the picture, as the library's
  \<open>extract_area\<close> operation does.
\<close>

datatype picture = Picture nat nat string | Corrupt

definition unsupportedImage :: string where
  "unsupportedImage = ''Input buffer contains unsupported image format''"

definition badExtractArea :: string where
  "badExtractArea = ''extract_area: bad extract area''"

definition knownFormats :: "string list" where
  "knownFormats = [''webp'', ''jpeg'', ''jpg'', ''png'', ''gif'', ''tiff'', ''avif'']"

fun pictureMetadata :: "picture \<Rightarrow> string + (nat option \<times> nat option)" where
  "pictureMetadata (Picture pw ph f) = Inr (Some pw, Some ph)"
| "pictureMetadata Corrupt = Inl unsupportedImage"

fun pictureWebp :: "picture \<Rightarrow> string + picture" where
  "pictureWebp (Picture pw ph f) = Inr (Picture pw ph ''webp'')"
| "pictureWebp Corrupt = Inl unsupportedImage"

fun pictureResize :: "picture \<Rightarrow> nat \<Rightarrow> nat \<Rightarrow> fit \<Rightarrow> string \<Rightarrow> string + picture" where
  "pictureResize (Picture pw ph f) tw th Fill p = Inr (Picture tw th (drop (Suc (lastDot p)) p))"
| "pictureResize (Picture pw ph f) tw th Inside p =
     (if pw * th \<le> ph * tw
      then Inr (Picture (max 1 (pw * th div ph)) th (drop (Suc (lastDot p)) p))
      else Inr (Picture tw (max 1 (ph * tw div pw)) (drop (Suc (lastDot p)) p)))"
| "pictureResize Corrupt tw th ft p = Inl unsupportedImage"

definition pictureToFormat :: "string \<Rightarrow> string option" where
  "pictureToFormat fmt =
     (if fmt \<in> set knownFormats then None else Some (''Unsupported output format '' @ fmt))"

fun pictureExtract :: "picture \<Rightarrow> int \<Rightarrow> int \<Rightarrow> int \<Rightarrow> int \<Rightarrow> string \<Rightarrow> string + picture" where
  "pictureExtract (Picture pw ph f) x y w h fmt =
     (if x + w \<le> int pw \<and> y + h \<le> int ph
      then Inr (Picture (nat w) (nat h) fmt) else Inl badExtractArea)"
| "pictureExtract Corrupt x y w h fmt = Inl unsupportedImage"

definition pictureSharp :: "picture sharp" where
  "pictureSharp =
     \<lparr>sharp_metadata = pictureMetadata, sharp_webp = pictureWebp,
      sharp_resize = pictureResize, sharp_toFormat = pictureToFormat,
      sharp_extract = pictureExtract\<rparr>"

text \<open>A staged upload of \<open>photo.jpg\<close> under a version-4 UUID, and stores holding it.\<close>

definition photoToken :: string where
  "photoToken = ''123e4567-e89b-42d3-a456-426614174000''"

definition photoUpload :: MulterFile where
  "photoUpload = \<lparr>filename = ''photo-'' @ photoToken @ ''.jpg''\<rparr>"

definition photoStaged :: string where
  "photoStaged = ''images/uploads/photo-'' @ photoToken @ ''.jpg''"

definition photoCanonical :: string where
  "photoCanonical = ''images/uploads/photo.webp''"

definition photoThumbnail :: string where
  "photoThumbnail = ''images/processed/photo-thumbnail.webp''"

definition photoCropped :: string where
  "photoCropped = ''images/processed/photo-cropped.webp''"

definition noFiles :: "picture fs" where
  "noFiles = (\<lambda>p. None)"

definition freshStore :: "picture fs" where
  "freshStore = noFiles(photoStaged \<mapsto> Picture 500 400 ''jpeg'')"

definition staleStore :: "picture fs" where
  "staleStore = freshStore(photoCanonical \<mapsto> Picture 100 100 ''webp'')"

text \<open>The staged upload alone, holding bytes that are no image.\<close>

definition corruptStore :: "picture fs" where
  "corruptStore = noFiles(photoStaged \<mapsto> Corrupt)"

text \<open>The same upload on a Windows host, where \<open>path.join\<close> writes backslashes.\<close>

definition winStaged :: string where
  "winStaged = ''images'' @ backslash # ''uploads'' @ backslash # filename photoUpload"

definition winCanonical :: string where
  "winCanonical = ''images'' @ backslash # ''uploads'' @ backslash # ''photo.webp''"

definition winThumbnail :: string where
  "winThumbnail = ''images'' @ backslash # ''processed'' @ backslash # ''photo-thumbnail.webp''"

definition winStore :: "picture fs" where
  "winStore = noFiles(winStaged \<mapsto> Picture 500 400 ''jpeg'')"

text \<open>A codec whose probe reports neither width nor height.\<close>

definition blindSharp :: "picture sharp" where
  "blindSharp = pictureSharp\<lparr>sharp_metadata := (\<lambda>p. Inr (None, None))\<rparr>"

text \<open>Codecs whose probe reports only the width, and only the height.\<close>

definition widthOnlySharp :: "picture sharp" where
  "widthOnlySharp =
     pictureSharp\<lparr>sharp_metadata :=
       (\<lambda>p. case p of Picture pw ph f \<Rightarrow> Inr (Some pw, None) | Corrupt \<Rightarrow> Inl unsupportedImage)\<rparr>"

definition heightOnlySharp :: "picture sharp" where
  "heightOnlySharp =
     pictureSharp\<lparr>sharp_metadata :=
       (\<lambda>p. case p of Picture pw ph f \<Rightarrow> Inr (None, Some ph) | Corrupt \<Rightarrow> Inl unsupportedImage)\<rparr>"

definition photoCrop :: CropOption where
  "photoCrop =
     \<lparr>crop_x = 10, crop_y = 20, crop_width = 200, crop_height = 150, outputFormat = None\<rparr>"

section \<open>The resolver strips one token\<close>

lemma stripToken_token:
  assumes "isToken token"
  shows "stripToken (base @ CHR ''-'' # token) = base"
proof -
  have len: "length token = 36" using assms by (simp add: isToken_def)
  have "hasTokenSuffix (base @ CHR ''-'' # token)"
    using assms len by (simp add: hasTokenSuffix_def nth_append)
  then show ?thesis using len by (simp add: stripToken_def)
qed

lemma path_base_plain:
  assumes "noSeparator pf p"
  shows "path_base pf p = p"
proof -
  have all: "\<forall>c\<in>set p. \<not> isPathSeparator pf c"
    using assms by (simp add: noSeparator_def list_all_iff)
  have a: "dropWhile (isPathSeparator pf) (rev p) = rev p"
    using all by (cases "rev p") auto
  have b: "takeWhile (\<lambda>c. \<not> isPathSeparator pf c) (rev p) = rev p"
    using all by simp
  show ?thesis unfolding path_base_def a b by simp
qed

lemma lastDot_append:
  assumes "CHR ''.'' \<notin> set e"
  shows "lastDot (s @ CHR ''.'' # e) = length s"
proof -
  have "\<And>x. x \<in> set (rev e) \<Longrightarrow> x \<noteq> CHR ''.''"
    using assms by auto
  then have "takeWhile (\<lambda>c. c \<noteq> CHR ''.'') (rev e @ CHR ''.'' # rev s)
               = rev e @ takeWhile (\<lambda>c. c \<noteq> CHR ''.'') (CHR ''.'' # rev s)"
    by (rule takeWhile_append2)
  then show ?thesis by (simp add: lastDot_def)
qed

lemma isTokenChar_plain:
  "isTokenChar c \<Longrightarrow> c \<noteq> CHR ''.'' \<and> c \<noteq> CHR ''/'' \<and> c \<noteq> backslash"
  by (auto simp: isTokenChar_def backslash_def)

lemma isToken_chars: "isToken token \<Longrightarrow> c \<in> set token \<Longrightarrow> isTokenChar c"
  by (simp add: isToken_def list_all_iff)

lemma token_no_dot: "isToken token \<Longrightarrow> CHR ''.'' \<notin> set token"
  using isToken_chars isTokenChar_plain by blast

lemma token_noSeparator: "isToken token \<Longrightarrow> noSeparator pf token"
  using isToken_chars[of token] isTokenChar_plain
  by (auto simp: noSeparator_def list_all_iff isPathSeparator_def)

lemma noSeparator_append [simp]:
  "noSeparator pf (a @ b) = (noSeparator pf a \<and> noSeparator pf b)"
  by (simp add: noSeparator_def)

lemma noSeparator_Cons [simp]:
  "noSeparator pf (c # b) = (\<not> isPathSeparator pf c \<and> noSeparator pf b)"
  by (simp add: noSeparator_def)

lemma stem_with_extension:
  assumes "noSeparator pf (s @ e)" and "CHR ''.'' \<notin> set e" and "2 \<le> length s"
  shows "path_stem pf (s @ CHR ''.'' # e) = s"
proof -
  have sep: "\<not> isPathSeparator pf (CHR ''.'')"
    by (simp add: isPathSeparator_def backslash_def)
  have b: "path_base pf (s @ CHR ''.'' # e) = s @ CHR ''.'' # e"
    using assms(1) sep by (intro path_base_plain) simp
  have "length (s @ CHR ''.'' # e) \<noteq> length ''..''"
    using assms(3) by simp
  then have "s @ CHR ''.'' # e \<noteq> ''..''"
    by (auto dest: arg_cong[where f = length])
  then show ?thesis
    using assms(3) by (auto simp: path_stem_def Let_def b lastDot_append[OF assms(2)])
qed

lemma stem_without_extension:
  assumes "noSeparator pf s" and "CHR ''.'' \<notin> set (tl s)"
  shows "path_stem pf s = s"
proof (cases "CHR ''.'' \<in> set s")
  case False
  then show ?thesis by (simp add: path_stem_def Let_def path_base_plain[OF assms(1)])
next
  case True
  then obtain r where s: "s = CHR ''.'' # r" and r: "CHR ''.'' \<notin> set r"
    using assms(2) by (cases s) auto
  have "lastDot s = 0"
    using lastDot_append[of r "[]"] r by (simp add: s)
  then show ?thesis by (simp add: path_stem_def Let_def path_base_plain[OF assms(1)])
qed

lemma posix_no_quirk:
  assumes "noSeparator Posix p"
  shows "rev (dropWhile (isPathSeparator Posix) (rev p)) \<noteq> ''/..''"
proof
  assume eq: "rev (dropWhile (isPathSeparator Posix) (rev p)) = ''/..''"
  have "CHR ''/'' \<in> set (rev (dropWhile (isPathSeparator Posix) (rev p)))"
    unfolding eq by simp
  then have "CHR ''/'' \<in> set p"
    by (auto dest: set_dropWhileD)
  with assms show False
    by (auto simp: noSeparator_def list_all_iff isPathSeparator_def)
qed

lemma win32_no_root:
  assumes "noSeparator Win32 p" and "\<not> hasDriveRoot p"
  shows "win32RootEnd p = 0"
  using assms by (cases p) (simp_all add: win32RootEnd_def)

text \<open>
  A name without separators that does not start with a drive letter and a colon has no
  root on either platform: its name is its stem.
\<close>

lemma parse_name_rootless:
  assumes "noSeparator pf p" and "pf = Posix \<or> \<not> hasDriveRoot p"
  shows "path_parse_name pf p = path_stem pf p"
proof (cases pf)
  case Posix
  with assms(1) posix_no_quirk show ?thesis
    by (simp add: path_parse_name_def)
next
  case Win32
  with assms win32_no_root show ?thesis
    by (simp add: path_parse_name_def)
qed

text \<open>The stem \<open>path.parse\<close> finds in a staged name is the base, the hyphen and the token.\<close>

lemma staged_name_stem:
  assumes tok: "isToken token"
    and sep: "noSeparator pf (base @ ext)"
    and ext: "isExtensionOf ext base"
    and drive: "pf = Posix \<or> \<not> hasDriveRoot (base @ CHR ''-'' # token @ ext)"
  shows "path_parse_name pf (base @ CHR ''-'' # token @ ext) = base @ CHR ''-'' # token"
proof -
  have hyphen: "\<not> isPathSeparator pf (CHR ''-'')"
    by (simp add: isPathSeparator_def backslash_def)
  have whole: "noSeparator pf (base @ CHR ''-'' # token @ ext)"
    using sep token_noSeparator[OF tok] hyphen by simp
  have stem: "path_stem pf (base @ CHR ''-'' # token @ ext) = base @ CHR ''-'' # token"
  proof (cases ext)
    case Nil
    have nosep: "noSeparator pf (base @ CHR ''-'' # token)"
      using sep token_noSeparator[OF tok] hyphen by simp
    have "CHR ''.'' \<notin> set (tl (base @ CHR ''-'' # token))"
      using ext token_no_dot[OF tok] Nil by (cases base) (auto simp: isExtensionOf_def)
    from stem_without_extension[OF nosep this] show ?thesis by (simp add: Nil)
  next
    case (Cons d e)
    then have d: "d = CHR ''.''" and e: "CHR ''.'' \<notin> set e"
      using ext by (auto simp: isExtensionOf_def)
    have nosep: "noSeparator pf ((base @ CHR ''-'' # token) @ e)"
      using sep token_noSeparator[OF tok] hyphen Cons by simp
    have len: "2 \<le> length (base @ CHR ''-'' # token)"
      using tok by (simp add: isToken_def)
    from stem_with_extension[OF nosep e len] show ?thesis by (simp add: Cons d)
  qed
  show ?thesis
    unfolding parse_name_rootless[OF whole drive] by (rule stem)
qed

text \<open>
  Claim C3. For every staged file name \<open>base-token.ext\<close> whose token is 36 characters
  from the token alphabet, \<open>getFilePaths\<close> returns \<open>base\<close> as the base name: it removes
  the one trailing hyphen and token and nothing else, also when \<open>base\<close> itself ends in
  something that looks like a token. A file name whose stem does not end in a hyphen and
  a token has its stem returned unchanged. (The staged name is a file name: it holds no
  separator and, on Windows, does not start with a drive letter and a colon, which
  \<open>path.parse\<close> would take for the root of a path and leave out of the name.)
\<close>

theorem getFilePaths_strips_one_token:
  "(isToken token \<and> noSeparator pf (base @ ext) \<and> isExtensionOf ext base
      \<and> (pf = Posix \<or> \<not> hasDriveRoot (base @ ''-'' @ token @ ext))
      \<longrightarrow> fst (snd (getFilePaths pf \<lparr>filename = base @ ''-'' @ token @ ext\<rparr>)) = base)
   \<and> (\<not> hasTokenSuffix (path_parse_name pf (filename file))
      \<longrightarrow> fst (snd (getFilePaths pf file)) = path_parse_name pf (filename file))"
  using staged_name_stem[of token pf base ext] stripToken_token[of token base]
  by (auto simp: getFilePaths_def Let_def stripToken_def)

theorem getFilePaths_strips_one_token_witness:
  "isToken photoToken \<and> noSeparator Posix (''photo'' @ ''.jpg'')
   \<and> noSeparator Win32 (''photo'' @ ''.jpg'')
   \<and> isExtensionOf ''.jpg'' ''photo''
   \<and> \<not> hasDriveRoot (''photo'' @ ''-'' @ photoToken @ ''.jpg'')
   \<and> fst (snd (getFilePaths Posix \<lparr>filename = ''photo'' @ ''-'' @ photoToken @ ''.jpg''\<rparr>))
       = ''photo''
   \<and> fst (snd (getFilePaths Win32 \<lparr>filename = ''photo'' @ ''-'' @ photoToken @ ''.jpg''\<rparr>))
       = ''photo''
   \<and> \<not> hasTokenSuffix (path_parse_name Posix (filename \<lparr>filename = ''photo.webp''\<rparr>))
   \<and> fst (snd (getFilePaths Posix \<lparr>filename = ''photo.webp''\<rparr>))
       = path_parse_name Posix (filename \<lparr>filename = ''photo.webp''\<rparr>)"
proof -
  have tok: "isToken photoToken"
    by (simp add: isToken_def photoToken_def isTokenChar_def)
  have sep: "noSeparator Posix (''photo'' @ ''.jpg'')" "noSeparator Win32 (''photo'' @ ''.jpg'')"
    by (simp_all add: isPathSeparator_def noSeparator_def backslash_def)
  have ext: "isExtensionOf ''.jpg'' ''photo''"
    by (simp add: isExtensionOf_def)
  have drive: "\<not> hasDriveRoot (''photo'' @ ''-'' @ photoToken @ ''.jpg'')"
    by (simp add: hasDriveRoot_def)
  have stem: "path_parse_name Posix ''photo.webp'' = ''photo''"
    by (simp add: path_parse_name_def path_stem_def path_base_def lastDot_def
        isPathSeparator_def Let_def)
  have none: "\<not> hasTokenSuffix (path_parse_name Posix (filename \<lparr>filename = ''photo.webp''\<rparr>))"
    by (simp add: stem hasTokenSuffix_def)
  show ?thesis
    using getFilePaths_strips_one_token
            [of photoToken Posix "''photo''" "''.jpg''" "\<lparr>filename = ''photo.webp''\<rparr>"]
          getFilePaths_strips_one_token
            [of photoToken Win32 "''photo''" "''.jpg''" "\<lparr>filename = ''photo.webp''\<rparr>"]
          tok sep ext drive none
    by simp
qed

section \<open>The pipelines, case by case\<close>

lemma convertToWebP_cases:
  "convertToWebP cd fs filePath originalOutputPath =
     (case fs filePath of
        None \<Rightarrow> (Inl (Error (''ENOENT: no such file or directory, open '' @ quoted filePath)), fs)
      | Some b \<Rightarrow>
          (case fs originalOutputPath of
             Some c \<Rightarrow> (Inr (), fs(filePath := None))
           | None \<Rightarrow>
               (case sharp_webp cd b of
                  Inl m \<Rightarrow> (Inl (Error m), fs)
                | Inr e \<Rightarrow> (Inr (), (fs(originalOutputPath \<mapsto> e))(filePath := None)))))"
  by (auto simp: convertToWebP_def readFile_def access_def toFile_def unlinkAsync_def
      split: option.splits sum.splits)

lemma convertToWebP_success:
  assumes "convertToWebP cd fs filePath originalOutputPath = (Inr u, fs1)"
  shows "\<exists>b. fs filePath = Some b \<and>
           ((\<exists>c. fs originalOutputPath = Some c \<and> fs1 = fs(filePath := None))
            \<or> (fs originalOutputPath = None \<and>
                (\<exists>e. sharp_webp cd b = Inr e
                     \<and> fs1 = (fs(originalOutputPath \<mapsto> e))(filePath := None))))"
  using assms by (auto simp: convertToWebP_cases split: option.splits sum.splits)

lemma generateVariations_success:
  assumes "generateVariations pf cd fs1 fileBaseName originalOutputPath imageType = (Inr outputPath, fs2)"
  shows "\<exists>cfg canonical out.
           map_of ImageConfig imageType = Some cfg
         \<and> outputPath = getOutputPath pf OUTPUT_DIR fileBaseName (cfg_suffix cfg) DEFAULT_FORMAT
         \<and> fs1 originalOutputPath = Some canonical
         \<and> sharp_resize cd canonical (cfg_width cfg) (cfg_height cfg)
              (if imageType = PROMOTION then Fill else Inside) outputPath = Inr out
         \<and> fs2 = fs1(outputPath \<mapsto> out)"
  using assms
  by (auto simp: generateVariations_def sharpInput_def toFile_def Let_def
      split: option.splits sum.splits)

lemma processImage_success:
  assumes "processImage pf cd svc fs file imageType = (Inr r, fs')"
    and "getFilePaths pf file = (filePath, fileBaseName, originalOutputPath)"
  shows "\<exists>fs1 outputPath.
           convertToWebP cd fs filePath originalOutputPath = (Inr (), fs1)
         \<and> generateVariations pf cd fs1 fileBaseName originalOutputPath imageType
             = (Inr outputPath, fs')
         \<and> r = \<lparr>original = server svc @ ''/'' @ originalOutputPath,
                 variation = server svc @ ''/'' @ outputPath\<rparr>"
  using assms
  by (auto simp: processImage_def processImageTry_def ensureFileExists_def catchAll_def
      split: sum.splits prod.splits if_splits)

lemma catchAll_Inr: "catchAll prefix r = (Inr v, s) \<longleftrightarrow> r = (Inr v, s)"
  by (simp add: catchAll_def split: prod.splits sum.splits)

lemma catchAll_Inl:
  "catchAll prefix r = (Inl e, s) \<longleftrightarrow>
     (\<exists>cause. r = (Inl cause, s) \<and> e = InternalServerErrorException (prefix @ message cause))"
  by (auto simp: catchAll_def split: prod.splits sum.splits)

lemma cropConvertExtract_success:
  assumes "cropConvertExtract pf cd fs filePath fileBaseName originalOutputPath x y w h fmt
             = (Inr croppedFilePath, fs')"
  shows "\<exists>fs1 canonical out.
           convertToWebP cd fs filePath originalOutputPath = (Inr (), fs1)
         \<and> sharp_toFormat cd fmt = None
         \<and> croppedFilePath = getOutputPath pf OUTPUT_DIR fileBaseName ''cropped'' fmt
         \<and> fs1 originalOutputPath = Some canonical
         \<and> sharp_extract cd canonical x y w h fmt = Inr out
         \<and> fs' = fs1(croppedFilePath \<mapsto> out)"
proof -
  obtain r1 fs1 where conv: "convertToWebP cd fs filePath originalOutputPath = (r1, fs1)"
    by (cases "convertToWebP cd fs filePath originalOutputPath")
  show ?thesis
  proof (cases r1)
    case (Inl e)
    with assms conv show ?thesis by (simp add: cropConvertExtract_def)
  next
    case (Inr u)
    show ?thesis
    proof (cases "sharp_toFormat cd fmt")
      case (Some m)
      with assms conv Inr show ?thesis by (simp add: cropConvertExtract_def)
    next
      case None
      show ?thesis
      proof (cases "fs1 originalOutputPath")
        case noFile: None
        with assms conv Inr None show ?thesis
          by (simp add: cropConvertExtract_def sharpInput_def)
      next
        case (Some canonical)
        show ?thesis
        proof (cases "sharp_extract cd canonical x y w h fmt")
          case failed: (Inl m)
          with assms conv Inr None Some show ?thesis
            by (simp add: cropConvertExtract_def sharpInput_def toFile_def)
        next
          case extracted: (Inr out)
          with assms conv Inr None Some show ?thesis
            by (auto simp: cropConvertExtract_def sharpInput_def toFile_def Let_def)
        qed
      qed
    qed
  qed
qed

lemma cropImageTry_success:
  assumes "cropImageTry pf cd fs filePath fileBaseName originalOutputPath x y w h fmt
             = (Inr croppedFilePath, fs')"
  shows "cropConvertExtract pf cd fs filePath fileBaseName originalOutputPath x y w h fmt
             = (Inr croppedFilePath, fs')"
  using assms
  by (simp add: cropImageTry_def split: sum.splits prod.splits if_splits)

lemma cropImage_success:
  assumes "cropImage pf cd fs file c = (Inr croppedFilePath, fs')"
    and "getFilePaths pf file = (filePath, fileBaseName, originalOutputPath)"
  shows "cropConvertExtract pf cd fs filePath fileBaseName originalOutputPath
           (crop_x c) (crop_y c) (crop_width c) (crop_height c)
           (case outputFormat c of None \<Rightarrow> DEFAULT_FORMAT | Some f \<Rightarrow> f)
         = (Inr croppedFilePath, fs')"
proof -
  from assms have "catchAll ''Error cropping image: ''
           (cropImageTry pf cd fs filePath fileBaseName originalOutputPath
              (crop_x c) (crop_y c) (crop_width c) (crop_height c)
              (case outputFormat c of None \<Rightarrow> DEFAULT_FORMAT | Some f \<Rightarrow> f))
         = (Inr croppedFilePath, fs')"
    by (simp add: cropImage_def Let_def split: sum.splits)
  then show ?thesis
    by (simp only: catchAll_Inr cropImageTry_success)
qed

lemma isValidImageType_config:
  "isValidImageType imageType \<longleftrightarrow> (\<exists>cfg. map_of ImageConfig imageType = Some cfg)"
  by (auto simp: isValidImageType_def ImageConfig_def)

section \<open>The characters of a resolved path\<close>

lemma segments_subset: "\<forall>s\<in>set (segments is_sep p). set s \<subseteq> set p"
proof (induction p)
  case Nil
  then show ?case by simp
next
  case (Cons a p)
  then show ?case
    by (cases "segments is_sep p") (auto split: if_splits)
qed

lemma segments_chars: "s \<in> set (segments is_sep p) \<Longrightarrow> c \<in> set s \<Longrightarrow> c \<in> set p"
  using segments_subset by blast

lemma normalizeSegments_chars:
  assumes "s \<in> set (normalizeSegments up res ss)" and "c \<in> set s"
  shows "(\<exists>t\<in>set res. c \<in> set t) \<or> (\<exists>t\<in>set ss. c \<in> set t) \<or> c = CHR ''.''"
  using assms
proof (induction up res ss rule: normalizeSegments.induct)
  case (1 allowAboveRoot res)
  then show ?case by auto
next
  case (2 allowAboveRoot res t ts)
  then show ?case
    by (auto split: if_splits dest: in_set_butlastD)
qed

lemma joinSegments_chars:
  "c \<in> set (joinSegments sep xs) \<Longrightarrow> (\<exists>t\<in>set xs. c \<in> set t) \<or> c = sep"
  by (induction sep xs rule: joinSegments.induct) auto

lemma path_normalize_chars:
  assumes "c \<in> set (path_normalize pf p)"
  shows "c \<in> set p \<or> c = path_sep pf \<or> c = CHR ''.''"
proof -
  let ?tail = "joinSegments (path_sep pf)
                 (normalizeSegments (\<not> isPathSeparator pf (hd p)) []
                    (segments (isPathSeparator pf) p))"
  have tail: "d \<in> set ?tail \<Longrightarrow> d \<in> set p \<or> d = path_sep pf \<or> d = CHR ''.''" for d
    using joinSegments_chars[of d "path_sep pf"] normalizeSegments_chars segments_chars
    by fastforce
  from assms have "c \<in> set ?tail \<or> c = path_sep pf \<or> c = CHR ''.''"
    by (auto simp: path_normalize_def Let_def split: if_splits)
  with tail show ?thesis by blast
qed

lemma path_join_chars:
  assumes "c \<in> set (path_join pf a b)"
  shows "c \<in> set a \<or> c \<in> set b \<or> c = path_sep pf \<or> c = CHR ''.''"
  using assms path_normalize_chars[of c pf]
  by (fastforce simp: path_join_def split: if_splits)

lemma path_stem_chars: "c \<in> set (path_stem pf p) \<Longrightarrow> c \<in> set p"
  by (auto simp: path_stem_def path_base_def Let_def split: if_splits
      dest!: in_set_takeD set_takeWhileD set_dropWhileD)

lemma path_parse_name_chars:
  assumes "c \<in> set (path_parse_name pf p)"
  shows "c \<in> set p"
proof (cases pf)
  case Win32
  with assms have "c \<in> set (drop (win32RootEnd p) p)"
    by (auto simp: path_parse_name_def dest: path_stem_chars)
  then show ?thesis by (rule in_set_dropD)
next
  case Posix
  show ?thesis
  proof (cases "rev (dropWhile (isPathSeparator Posix) (rev p)) = ''/..''")
    case False
    with assms Posix show ?thesis
      by (auto simp: path_parse_name_def dest: path_stem_chars)
  next
    case True
    with assms Posix have c: "c = CHR ''.''"
      by (simp add: path_parse_name_def)
    have "CHR ''.'' \<in> set (rev (dropWhile (isPathSeparator Posix) (rev p)))"
      unfolding True by simp
    then have "CHR ''.'' \<in> set p"
      by (auto dest: set_dropWhileD)
    with c show ?thesis by simp
  qed
qed

lemma stripToken_chars: "c \<in> set (stripToken s) \<Longrightarrow> c \<in> set s"
  by (auto simp: stripToken_def split: if_splits dest: in_set_takeD)

lemma digitChar_digit: "d < 10 \<Longrightarrow> digitChar d \<in> set ''0123456789''"
  unfolding digitChar_def by (rule nth_mem) simp

lemma showNat_digits: "c \<in> set (showNat n) \<Longrightarrow> c \<in> set ''0123456789''"
proof (induction n rule: showNat.induct)
  case (1 n)
  show ?case
  proof (cases "n < 10")
    case True
    with "1.prems" digitChar_digit[of n] show ?thesis
      by (simp add: showNat.simps[of n])
  next
    case False
    with "1.prems" "1.IH" digitChar_digit[of "n mod 10"] show ?thesis
      by (auto simp: showNat.simps[of n])
  qed
qed

lemma server_no_backslash: "backslash \<notin> set (server (newService port))"
  using showNat_digits[of backslash]
  by (auto simp: newService_def Let_def backslash_def split: option.splits)

section \<open>The two validations\<close>

lemma processImage_invalid_type:
  assumes "\<not> isValidImageType imageType"
  shows "snd (processImage pf cd svc fs file imageType) = fs"
    and "access fs (fst (getFilePaths pf file)) \<Longrightarrow>
           fst (processImage pf cd svc fs file imageType)
             = Inl (InternalServerErrorException
                      (''Error processing image: Invalid image type: '' @ imageType))"
    and "\<not> access fs (fst (getFilePaths pf file)) \<Longrightarrow>
           fst (processImage pf cd svc fs file imageType) = Inl (Error ''File not found'')"
  using assms
  by (auto simp: processImage_def processImageTry_def ensureFileExists_def catchAll_def
      split: prod.splits)

lemma cropImage_checks:
  assumes "getFilePaths pf file = (filePath, fileBaseName, originalOutputPath)"
    and "fs filePath = Some input"
    and "sharp_metadata cd input = Inr (imageWidth, imageHeight)"
  shows "cropImage pf cd fs file c =
           (if crop_x c < 0 \<or> crop_y c < 0 \<or> crop_width c \<le> 0 \<or> crop_height c \<le> 0
            then (Inl (InternalServerErrorException
                         (''Error cropping image: '' @ invalidCropMessage)), fs)
            else if exceeds (crop_x c + crop_width c) imageWidth
                  \<or> exceeds (crop_y c + crop_height c) imageHeight
            then (Inl (InternalServerErrorException
                         (''Error cropping image: ''
                            @ cropExceedsMessage imageWidth imageHeight)), fs)
            else catchAll ''Error cropping image: ''
                   (cropConvertExtract pf cd fs filePath fileBaseName originalOutputPath
                      (crop_x c) (crop_y c) (crop_width c) (crop_height c)
                      (case outputFormat c of None \<Rightarrow> DEFAULT_FORMAT | Some f \<Rightarrow> f)))"
  using assms
  by (simp add: cropImage_def cropImageTry_def ensureFileExists_def access_def catchAll_def
      sharpInput_def Let_def)

section \<open>Runs on the concrete stores\<close>

lemma photo_paths: "getFilePaths Posix photoUpload = (photoStaged, ''photo'', photoCanonical)"
  by code_simp

lemma photo_thumbnail:
  "getOutputPath Posix OUTPUT_DIR ''photo'' ''thumbnail'' DEFAULT_FORMAT = photoThumbnail"
  by code_simp

lemma photo_cropped:
  "getOutputPath Posix OUTPUT_DIR ''photo'' ''cropped'' DEFAULT_FORMAT = photoCropped"
  by code_simp

lemma photo_paths_distinct:
  "photoStaged \<noteq> photoCanonical" "photoStaged \<noteq> photoThumbnail" "photoStaged \<noteq> photoCropped"
  "photoCanonical \<noteq> photoThumbnail" "photoCanonical \<noteq> photoCropped"
  by (simp_all add: photoStaged_def photoCanonical_def photoThumbnail_def photoCropped_def
      photoToken_def)

lemma freshStore_files:
  "freshStore photoStaged = Some (Picture 500 400 ''jpeg'')" "freshStore photoCanonical = None"
  using photo_paths_distinct by (simp_all add: freshStore_def noFiles_def)

lemma staleStore_files:
  "staleStore photoStaged = Some (Picture 500 400 ''jpeg'')"
  "staleStore photoCanonical = Some (Picture 100 100 ''webp'')"
  using photo_paths_distinct by (simp_all add: staleStore_def freshStore_def noFiles_def)

lemma banner_invalid: "\<not> isValidImageType ''banner''"
  by (simp add: isValidImageType_def ImageConfig_def GAME_def PROMOTION_def)

lemma picture_metadata:
  "sharp_metadata pictureSharp (Picture pw ph f) = Inr (Some pw, Some ph)"
  by (simp add: pictureSharp_def)

section \<open>Claims\<close>

text \<open>
  Claim C1. A request that fails validation (an unregistered image type in
  \<open>processImage\<close>, a negative or empty crop rectangle or one that leaves the image in
  \<open>cropImage\<close>) should be answered with the client error the service constructs for it.
  The \<open>BadRequestException\<close> is thrown inside the \<open>try\<close> block, so the handler of
  that block catches it and throws an \<open>InternalServerErrorException\<close> with its message:
  the three requests below are answered with status 500.
\<close>

theorem validation_failures_answered_500:
  "processImage Posix pictureSharp (newService None) freshStore photoUpload ''banner''
     = (Inl (InternalServerErrorException
               ''Error processing image: Invalid image type: banner''), freshStore)
   \<and> cropImage Posix pictureSharp freshStore photoUpload (photoCrop\<lparr>crop_x := - 1\<rparr>)
     = (Inl (InternalServerErrorException
               ''Error cropping image: Invalid crop dimensions (negative values are not allowed).''),
        freshStore)
   \<and> cropImage Posix pictureSharp freshStore photoUpload (photoCrop\<lparr>crop_x := 400\<rparr>)
     = (Inl (InternalServerErrorException
               ''Error cropping image: Crop area exceeds image dimensions. Image dimensions: 500x400.''),
        freshStore)
   \<and> statusCode (InternalServerErrorException
                    ''Error processing image: Invalid image type: banner'') = 500"
proof -
  have acc: "access freshStore (fst (getFilePaths Posix photoUpload))"
    by (simp add: photo_paths access_def freshStore_files)
  have up: "processImage Posix pictureSharp (newService None) freshStore photoUpload ''banner''
     = (Inl (InternalServerErrorException
               ''Error processing image: Invalid image type: banner''), freshStore)"
    using processImage_invalid_type(1)[OF banner_invalid, of Posix pictureSharp "newService None" freshStore photoUpload]
      processImage_invalid_type(2)[OF banner_invalid acc, of pictureSharp "newService None"]
    by (simp add: prod_eq_iff)
  have dims: "showNat 500 = ''500''" "showNat 400 = ''400''"
    by code_simp+
  note crop = cropImage_checks[where fs = freshStore and filePath = photoStaged,
                  OF photo_paths freshStore_files(1) picture_metadata]
  show ?thesis
    using up
    by (simp add: crop photoCrop_def exceeds_def invalidCropMessage_def cropExceedsMessage_def
        showDimension_def dims)
qed

text \<open>
  Claim C2. Converting to the canonical format is idempotent. When a file already exists
  at the canonical path, \<open>convertToWebP\<close> does not call the codec and writes nothing:
  the store it returns is the old one without the staged file, so the canonical file (a
  file other than the staged one) keeps its content. When no file exists there, the
  staged bytes are encoded as WebP and written at the canonical path. Whenever the
  conversion succeeds, the staged file is gone afterwards.
\<close>

theorem convertToWebP_canonical:
  "(fs filePath = Some b \<and> fs originalOutputPath = Some c \<longrightarrow>
      convertToWebP cd fs filePath originalOutputPath = (Inr (), fs(filePath := None)))
   \<and> (fs filePath = Some b \<and> fs originalOutputPath = None \<and> sharp_webp cd b = Inr e \<longrightarrow>
      convertToWebP cd fs filePath originalOutputPath
        = (Inr (), (fs(originalOutputPath \<mapsto> e))(filePath := None)))
   \<and> (convertToWebP cd fs filePath originalOutputPath = (r, fs')
        \<and> fs originalOutputPath = Some c \<and> originalOutputPath \<noteq> filePath \<longrightarrow>
      fs' originalOutputPath = Some c)
   \<and> (convertToWebP cd fs filePath originalOutputPath = (Inr (), fs') \<longrightarrow> fs' filePath = None)"
  by (auto simp: convertToWebP_cases split: option.splits sum.splits)

theorem convertToWebP_canonical_witness:
  "convertToWebP pictureSharp staleStore photoStaged photoCanonical
     = (Inr (), staleStore(photoStaged := None))
   \<and> (staleStore(photoStaged := None)) photoCanonical = Some (Picture 100 100 ''webp'')
   \<and> (staleStore(photoStaged := None)) photoStaged = None
   \<and> convertToWebP pictureSharp freshStore photoStaged photoCanonical
     = (Inr (), (freshStore(photoCanonical \<mapsto> Picture 500 400 ''webp''))(photoStaged := None))"
proof -
  have enc: "sharp_webp pictureSharp (Picture 500 400 ''jpeg'') = Inr (Picture 500 400 ''webp'')"
    by (simp add: pictureSharp_def)
  note stale = convertToWebP_canonical
      [where fs = staleStore and filePath = photoStaged and originalOutputPath = photoCanonical
         and cd = pictureSharp and b = "Picture 500 400 ''jpeg''"
         and c = "Picture 100 100 ''webp''" and r = "Inr ()"
         and fs' = "staleStore(photoStaged := None)"]
  note fresh = convertToWebP_canonical
      [where fs = freshStore and filePath = photoStaged and originalOutputPath = photoCanonical
         and cd = pictureSharp and b = "Picture 500 400 ''jpeg''"
         and e = "Picture 500 400 ''webp''"]
  show ?thesis
    using stale fresh enc staleStore_files freshStore_files photo_paths_distinct(1)
    by simp
qed

text \<open>
  Claim C4. For a staged image whose probe reports the size \<open>W\<close> by \<open>H\<close>: a crop
  rectangle with a negative offset or a non-positive extent fails with the message of the
  invalid-geometry error; a rectangle that passes that first check and reaches beyond
  \<open>W\<close> or \<open>H\<close> fails with the message of the out-of-bounds error. In both cases the
  store is returned as it was: nothing is converted, nothing is written. (The first check
  comes first: a rectangle that fails both is reported with the invalid-geometry message.)
\<close>

theorem cropImage_rejects_bad_rectangle:
  assumes "getFilePaths pf file = (filePath, fileBaseName, originalOutputPath)"
    and "fs filePath = Some staged"
    and "sharp_metadata cd staged = Inr (Some W, Some H)"
  shows "(crop_x c < 0 \<or> crop_y c < 0 \<or> crop_width c \<le> 0 \<or> crop_height c \<le> 0 \<longrightarrow>
            cropImage pf cd fs file c
              = (Inl (InternalServerErrorException
                        (''Error cropping image: '' @ invalidCropMessage)), fs))
       \<and> (0 \<le> crop_x c \<and> 0 \<le> crop_y c \<and> 0 < crop_width c \<and> 0 < crop_height c
            \<and> (int W < crop_x c + crop_width c \<or> int H < crop_y c + crop_height c) \<longrightarrow>
            cropImage pf cd fs file c
              = (Inl (InternalServerErrorException
                        (''Error cropping image: '' @ cropExceedsMessage (Some W) (Some H))), fs))"
  using cropImage_checks[where fs = fs and filePath = filePath, OF assms, of c]
  by (auto simp: exceeds_def)

theorem cropImage_rejects_bad_rectangle_witness:
  "cropImage Posix pictureSharp freshStore photoUpload (photoCrop\<lparr>crop_width := 0\<rparr>)
     = (Inl (InternalServerErrorException (''Error cropping image: '' @ invalidCropMessage)),
        freshStore)
   \<and> cropImage Posix pictureSharp freshStore photoUpload (photoCrop\<lparr>crop_y := 300\<rparr>)
     = (Inl (InternalServerErrorException
               (''Error cropping image: '' @ cropExceedsMessage (Some 500) (Some 400))),
        freshStore)"
  using cropImage_rejects_bad_rectangle
          [where fs = freshStore and filePath = photoStaged and c = "photoCrop\<lparr>crop_width := 0\<rparr>",
           OF photo_paths freshStore_files(1) picture_metadata]
        cropImage_rejects_bad_rectangle
          [where fs = freshStore and filePath = photoStaged and c = "photoCrop\<lparr>crop_y := 300\<rparr>",
           OF photo_paths freshStore_files(1) picture_metadata]
  by (simp add: photoCrop_def)

text \<open>
  Claim C6. For an image type that is not a key of \<open>ImageConfig\<close>, \<open>processImage\<close>
  fails before any conversion and leaves the store as it was: the staged file is still
  there, and no canonical or variant file has been written. With the staged file present,
  the failure carries the invalid-type message.
\<close>

theorem processImage_rejects_unknown_type:
  assumes "\<not> isValidImageType imageType"
  shows "snd (processImage pf cd svc fs file imageType) = fs
       \<and> (access fs (fst (getFilePaths pf file)) \<longrightarrow>
            fst (processImage pf cd svc fs file imageType)
              = Inl (InternalServerErrorException
                       (''Error processing image: Invalid image type: '' @ imageType)))
       \<and> (\<not> access fs (fst (getFilePaths pf file)) \<longrightarrow>
            fst (processImage pf cd svc fs file imageType) = Inl (Error ''File not found''))"
  using processImage_invalid_type[OF assms] by blast

theorem processImage_rejects_unknown_type_witness:
  "\<not> isValidImageType ''banner''
   \<and> access staleStore (fst (getFilePaths Posix photoUpload))
   \<and> snd (processImage Posix pictureSharp (newService None) staleStore photoUpload ''banner'')
       = staleStore
   \<and> staleStore photoStaged = Some (Picture 500 400 ''jpeg'')
   \<and> staleStore photoThumbnail = None
   \<and> fst (processImage Posix pictureSharp (newService None) staleStore photoUpload ''banner'')
       = Inl (InternalServerErrorException ''Error processing image: Invalid image type: banner'')"
proof -
  have acc: "access staleStore (fst (getFilePaths Posix photoUpload))"
    by (simp add: photo_paths access_def staleStore_files)
  have none: "staleStore photoThumbnail = None"
    using photo_paths_distinct
    by (simp add: staleStore_def freshStore_def noFiles_def)
  show ?thesis
    using processImage_rejects_unknown_type
            [OF banner_invalid, of Posix pictureSharp "newService None" staleStore photoUpload]
          acc none banner_invalid staleStore_files
    by simp
qed

lemma processImageTry_causes:
  assumes "processImageTry pf cd svc fs filePath fileBaseName originalOutputPath imageType
             = (Inl cause, fs')"
  shows "cause = BadRequestException (''Invalid image type: '' @ imageType) \<or> (\<exists>m. cause = Error m)"
proof (cases "isValidImageType imageType")
  case False
  with assms show ?thesis by (simp add: processImageTry_def)
next
  case True
  obtain r1 fs1 where conv: "convertToWebP cd fs filePath originalOutputPath = (r1, fs1)"
    by (cases "convertToWebP cd fs filePath originalOutputPath")
  show ?thesis
  proof (cases r1)
    case (Inl e)
    with conv have "\<exists>m. e = Error m"
      by (auto simp: convertToWebP_cases split: option.splits sum.splits)
    with assms True conv Inl show ?thesis by (simp add: processImageTry_def)
  next
    case (Inr u)
    obtain r2 fs2 where
      gen: "generateVariations pf cd fs1 fileBaseName originalOutputPath imageType = (r2, fs2)"
      by (cases "generateVariations pf cd fs1 fileBaseName originalOutputPath imageType")
    show ?thesis
    proof (cases r2)
      case failed: (Inl e)
      with gen have "\<exists>m. e = Error m"
        by (auto simp: generateVariations_def sharpInput_def toFile_def Let_def
            split: option.splits sum.splits)
      with assms True conv Inr gen failed show ?thesis by (simp add: processImageTry_def)
    next
      case written: (Inr outputPath)
      with assms True conv Inr gen show ?thesis by (simp add: processImageTry_def)
    qed
  qed
qed

lemma corrupt_run:
  "processImage Posix pictureSharp (newService None) corruptStore photoUpload GAME
     = (Inl (InternalServerErrorException (''Error processing image: '' @ unsupportedImage)),
        corruptStore)"
proof -
  have files: "corruptStore photoStaged = Some Corrupt" "corruptStore photoCanonical = None"
    using photo_paths_distinct by (simp_all add: corruptStore_def noFiles_def)
  have valid: "isValidImageType GAME"
    by (simp add: isValidImageType_def ImageConfig_def)
  show ?thesis
    using files valid
    by (simp add: processImage_def photo_paths ensureFileExists_def access_def
        processImageTry_def convertToWebP_cases pictureSharp_def catchAll_def)
qed

lemma cropConvertExtract_unfold:
  "cropConvertExtract pf cd fs filePath fileBaseName originalOutputPath x y w h fmt =
     (case convertToWebP cd fs filePath originalOutputPath of
        (Inl e, converted) \<Rightarrow> (Inl e, converted)
      | (Inr u, converted) \<Rightarrow>
          (case sharp_toFormat cd fmt of
             Some m \<Rightarrow> (Inl (Error m), converted)
           | None \<Rightarrow>
               (case sharpInput converted originalOutputPath of
                  Inl e \<Rightarrow> (Inl e, converted)
                | Inr canonical \<Rightarrow>
                    (case toFile converted
                            (getOutputPath pf OUTPUT_DIR fileBaseName ''cropped'' fmt)
                            (sharp_extract cd canonical x y w h fmt) of
                       (Inl e, written) \<Rightarrow> (Inl e, written)
                     | (Inr u, written) \<Rightarrow>
                         (Inr (getOutputPath pf OUTPUT_DIR fileBaseName ''cropped'' fmt),
                          written)))))"
  unfolding cropConvertExtract_def Let_def by (rule refl)

lemma probe_codec_tail:
  assumes "sharp_webp cd = pictureWebp" and "sharp_toFormat cd = pictureToFormat"
    and "sharp_extract cd = pictureExtract"
    and "\<not> (x + w \<le> 500 \<and> y + h \<le> 400)"
  shows "cropConvertExtract Posix cd freshStore photoStaged ''photo'' photoCanonical
           x y w h DEFAULT_FORMAT
         = (Inl (Error badExtractArea),
            (freshStore(photoCanonical \<mapsto> Picture 500 400 ''webp''))(photoStaged := None))"
proof -
  have fmt: "pictureToFormat DEFAULT_FORMAT = None"
    by (simp add: pictureToFormat_def knownFormats_def DEFAULT_FORMAT_def)
  show ?thesis
    using freshStore_files photo_paths_distinct(1) assms(4)
    by (simp add: cropConvertExtract_def convertToWebP_cases assms(1,2,3) fmt sharpInput_def
        toFile_def Let_def)
qed

lemma probe_codecs:
  "sharp_webp blindSharp = pictureWebp" "sharp_toFormat blindSharp = pictureToFormat"
  "sharp_extract blindSharp = pictureExtract"
  "sharp_webp widthOnlySharp = pictureWebp" "sharp_toFormat widthOnlySharp = pictureToFormat"
  "sharp_extract widthOnlySharp = pictureExtract"
  "sharp_webp heightOnlySharp = pictureWebp" "sharp_toFormat heightOnlySharp = pictureToFormat"
  "sharp_extract heightOnlySharp = pictureExtract"
  "sharp_metadata blindSharp (Picture 500 400 ''jpeg'') = Inr (None, None)"
  "sharp_metadata widthOnlySharp (Picture 500 400 ''jpeg'') = Inr (Some 500, None)"
  "sharp_metadata heightOnlySharp (Picture 500 400 ''jpeg'') = Inr (None, Some 400)"
  by (simp_all add: blindSharp_def widthOnlySharp_def heightOnlySharp_def pictureSharp_def)

lemma undefined_messages:
  "cropExceedsMessage (Some 500) None
     = ''Crop area exceeds image dimensions. Image dimensions: 500xundefined.''"
  "cropExceedsMessage None (Some 400)
     = ''Crop area exceeds image dimensions. Image dimensions: undefinedx400.''"
proof -
  have dims: "showNat 500 = ''500''" "showNat 400 = ''400''"
    by code_simp+
  show "cropExceedsMessage (Some 500) None
     = ''Crop area exceeds image dimensions. Image dimensions: 500xundefined.''"
    "cropExceedsMessage None (Some 400)
     = ''Crop area exceeds image dimensions. Image dimensions: undefinedx400.''"
    by (simp_all add: cropExceedsMessage_def showDimension_def dims)
qed

text \<open>
  Claim C7, as amended. A failure of \<open>processImage\<close> is one of two things. When the
  staged file does not exist, \<open>ensureFileExists\<close> throws before the \<open>try\<close> block is
  entered: the caller gets the plain \<open>Error\<close> with the message \<open>File not found\<close>,
  not wrapped, and the store is untouched. Every failure inside the \<open>try\<close> block (the
  invalid image type, or an error of the file system or the codec during conversion or
  variant generation) is wrapped into one \<open>InternalServerErrorException\<close> whose message
  is \<open>Error processing image: \<close> followed by the message of the cause. A failure
  returns no URLs.
\<close>

theorem processImage_failure_wrapped:
  assumes "processImage pf cd svc fs file imageType = (Inl e, fs')"
    and "getFilePaths pf file = (filePath, fileBaseName, originalOutputPath)"
  shows "(\<not> access fs filePath \<and> e = Error ''File not found'' \<and> fs' = fs)
       \<or> (access fs filePath \<and>
           (\<exists>cause. processImageTry pf cd svc fs filePath fileBaseName originalOutputPath imageType
                       = (Inl cause, fs')
                  \<and> (cause = BadRequestException (''Invalid image type: '' @ imageType)
                       \<or> (\<exists>m. cause = Error m))
                  \<and> e = InternalServerErrorException
                          (''Error processing image: '' @ message cause)))"
proof (cases "access fs filePath")
  case False
  with assms show ?thesis
    by (simp add: processImage_def ensureFileExists_def)
next
  case True
  with assms have "catchAll ''Error processing image: ''
           (processImageTry pf cd svc fs filePath fileBaseName originalOutputPath imageType)
         = (Inl e, fs')"
    by (simp add: processImage_def ensureFileExists_def)
  then obtain cause where
    "processImageTry pf cd svc fs filePath fileBaseName originalOutputPath imageType
       = (Inl cause, fs')"
    and "e = InternalServerErrorException (''Error processing image: '' @ message cause)"
    unfolding catchAll_Inl by blast
  with True processImageTry_causes show ?thesis by blast
qed

theorem processImage_failure_wrapped_witness:
  "processImage Posix pictureSharp (newService None) corruptStore photoUpload GAME
     = (Inl (InternalServerErrorException (''Error processing image: '' @ unsupportedImage)),
        corruptStore)
   \<and> access corruptStore photoStaged
   \<and> (\<exists>cause. processImageTry Posix pictureSharp (newService None) corruptStore
                  photoStaged ''photo'' photoCanonical GAME = (Inl cause, corruptStore)
             \<and> (cause = BadRequestException (''Invalid image type: '' @ GAME)
                  \<or> (\<exists>m. cause = Error m))
             \<and> InternalServerErrorException (''Error processing image: '' @ unsupportedImage)
                 = InternalServerErrorException (''Error processing image: '' @ message cause))"
proof -
  have acc: "access corruptStore photoStaged"
    by (simp add: access_def corruptStore_def)
  show ?thesis
    using processImage_failure_wrapped[OF corrupt_run photo_paths] acc corrupt_run
    by simp
qed

text \<open>
  The claim as stated includes the failure of step 1 among the wrapped ones; with no
  staged file the error that reaches the caller is the unwrapped one.
\<close>

theorem processImage_missing_file_counterexample:
  "processImage Posix pictureSharp (newService None) noFiles photoUpload GAME
     = (Inl (Error ''File not found''), noFiles)"
  by (simp add: processImage_def photo_paths ensureFileExists_def access_def noFiles_def)

text \<open>
  Claim C9, as amended. Let the crop rectangle have non-negative offsets and positive
  extents. When the probe of the staged file reports neither a width nor a height, both
  comparisons of the out-of-bounds check are false: the check does not fire, whatever the
  size of the rectangle, and \<open>cropImage\<close> goes on to the conversion of the staged file and
  then to the extraction of the unchanged rectangle from the canonical file, written to
  the output path. When the probe reports only one of the two, only the comparison with
  the missing dimension is false: the check fires exactly when the rectangle exceeds the
  dimension that is reported, with the store left as it was, and otherwise \<open>cropImage\<close>
  goes on to the conversion and the extraction whatever the extent of the rectangle along
  the missing dimension.
\<close>

theorem cropImage_undefined_dimension:
  assumes paths: "getFilePaths pf upload = (filePath, fileBaseName, originalOutputPath)"
    and staged: "fs filePath = Some staged"
    and geometry: "0 \<le> crop_x c" "0 \<le> crop_y c" "0 < crop_width c" "0 < crop_height c"
    and fmt: "fmt = (case outputFormat c of None \<Rightarrow> DEFAULT_FORMAT | Some f \<Rightarrow> f)"
    and proceeds: "proceeds =
      catchAll ''Error cropping image: ''
        (case convertToWebP cd fs filePath originalOutputPath of
           (Inl e, converted) \<Rightarrow> (Inl e, converted)
         | (Inr u, converted) \<Rightarrow>
             (case sharp_toFormat cd fmt of
                Some m \<Rightarrow> (Inl (Error m), converted)
              | None \<Rightarrow>
                  (case sharpInput converted originalOutputPath of
                     Inl e \<Rightarrow> (Inl e, converted)
                   | Inr canonical \<Rightarrow>
                       (case toFile converted
                               (getOutputPath pf OUTPUT_DIR fileBaseName ''cropped'' fmt)
                               (sharp_extract cd canonical (crop_x c) (crop_y c)
                                  (crop_width c) (crop_height c) fmt) of
                          (Inl e, written) \<Rightarrow> (Inl e, written)
                        | (Inr u, written) \<Rightarrow>
                            (Inr (getOutputPath pf OUTPUT_DIR fileBaseName ''cropped'' fmt),
                             written)))))"
  shows "(sharp_metadata cd staged = Inr (None, None) \<longrightarrow>
            cropImage pf cd fs upload c = proceeds)
       \<and> (sharp_metadata cd staged = Inr (Some W, None) \<and> crop_x c + crop_width c \<le> int W \<longrightarrow>
            cropImage pf cd fs upload c = proceeds)
       \<and> (sharp_metadata cd staged = Inr (Some W, None) \<and> int W < crop_x c + crop_width c \<longrightarrow>
            cropImage pf cd fs upload c
              = (Inl (InternalServerErrorException
                        (''Error cropping image: '' @ cropExceedsMessage (Some W) None)), fs))
       \<and> (sharp_metadata cd staged = Inr (None, Some H) \<and> crop_y c + crop_height c \<le> int H \<longrightarrow>
            cropImage pf cd fs upload c = proceeds)
       \<and> (sharp_metadata cd staged = Inr (None, Some H) \<and> int H < crop_y c + crop_height c \<longrightarrow>
            cropImage pf cd fs upload c
              = (Inl (InternalServerErrorException
                        (''Error cropping image: '' @ cropExceedsMessage None (Some H))), fs))"
proof -
  have tail: "proceeds =
      catchAll ''Error cropping image: ''
        (cropConvertExtract pf cd fs filePath fileBaseName originalOutputPath
           (crop_x c) (crop_y c) (crop_width c) (crop_height c) fmt)"
    unfolding proceeds cropConvertExtract_unfold by (rule refl)
  have checks: "sharp_metadata cd staged = Inr (imageWidth, imageHeight) \<Longrightarrow>
      cropImage pf cd fs upload c =
        (if exceeds (crop_x c + crop_width c) imageWidth
              \<or> exceeds (crop_y c + crop_height c) imageHeight
         then (Inl (InternalServerErrorException
                      (''Error cropping image: ''
                         @ cropExceedsMessage imageWidth imageHeight)), fs)
         else proceeds)" for imageWidth imageHeight
    using cropImage_checks[where fs = fs and filePath = filePath, OF paths staged, of cd _ _ c]
      geometry
    by (simp add: tail fmt)
  show ?thesis
    by (auto simp: checks exceeds_def)
qed

theorem cropImage_undefined_dimension_witness:
  "cropImage Posix blindSharp freshStore photoUpload
       (photoCrop\<lparr>crop_width := 100000, crop_height := 100000\<rparr>)
     = (Inl (InternalServerErrorException (''Error cropping image: '' @ badExtractArea)),
        (freshStore(photoCanonical \<mapsto> Picture 500 400 ''webp''))(photoStaged := None))
   \<and> cropImage Posix widthOnlySharp freshStore photoUpload (photoCrop\<lparr>crop_height := 100000\<rparr>)
     = (Inl (InternalServerErrorException (''Error cropping image: '' @ badExtractArea)),
        (freshStore(photoCanonical \<mapsto> Picture 500 400 ''webp''))(photoStaged := None))
   \<and> cropImage Posix widthOnlySharp freshStore photoUpload (photoCrop\<lparr>crop_x := 400\<rparr>)
     = (Inl (InternalServerErrorException
               (''Error cropping image: '' @ cropExceedsMessage (Some 500) None)), freshStore)
   \<and> cropImage Posix heightOnlySharp freshStore photoUpload (photoCrop\<lparr>crop_width := 100000\<rparr>)
     = (Inl (InternalServerErrorException (''Error cropping image: '' @ badExtractArea)),
        (freshStore(photoCanonical \<mapsto> Picture 500 400 ''webp''))(photoStaged := None))
   \<and> cropImage Posix heightOnlySharp freshStore photoUpload (photoCrop\<lparr>crop_y := 300\<rparr>)
     = (Inl (InternalServerErrorException
               (''Error cropping image: '' @ cropExceedsMessage None (Some 400))), freshStore)"
proof -
  note inst = cropImage_undefined_dimension
      [where fs = freshStore and filePath = photoStaged,
       OF photo_paths freshStore_files(1) _ _ _ _ refl refl,
       folded cropConvertExtract_unfold]
  have a: "cropImage Posix blindSharp freshStore photoUpload
       (photoCrop\<lparr>crop_width := 100000, crop_height := 100000\<rparr>)
     = (Inl (InternalServerErrorException (''Error cropping image: '' @ badExtractArea)),
        (freshStore(photoCanonical \<mapsto> Picture 500 400 ''webp''))(photoStaged := None))"
    using inst[of "photoCrop\<lparr>crop_width := 100000, crop_height := 100000\<rparr>" blindSharp]
      probe_codecs(10)
    by (simp add: photoCrop_def catchAll_def
        probe_codec_tail[OF probe_codecs(1,2,3), of 10 100000 20 100000])
  have b: "cropImage Posix widthOnlySharp freshStore photoUpload (photoCrop\<lparr>crop_height := 100000\<rparr>)
     = (Inl (InternalServerErrorException (''Error cropping image: '' @ badExtractArea)),
        (freshStore(photoCanonical \<mapsto> Picture 500 400 ''webp''))(photoStaged := None))"
    using inst[of "photoCrop\<lparr>crop_height := 100000\<rparr>" widthOnlySharp 500]
      probe_codecs(11)
    by (simp add: photoCrop_def catchAll_def
        probe_codec_tail[OF probe_codecs(4,5,6), of 10 200 20 100000])
  have c: "cropImage Posix widthOnlySharp freshStore photoUpload (photoCrop\<lparr>crop_x := 400\<rparr>)
     = (Inl (InternalServerErrorException
               (''Error cropping image: '' @ cropExceedsMessage (Some 500) None)), freshStore)"
    using inst[of "photoCrop\<lparr>crop_x := 400\<rparr>" widthOnlySharp 500]
      probe_codecs(11)
    by (simp add: photoCrop_def)
  have d: "cropImage Posix heightOnlySharp freshStore photoUpload (photoCrop\<lparr>crop_width := 100000\<rparr>)
     = (Inl (InternalServerErrorException (''Error cropping image: '' @ badExtractArea)),
        (freshStore(photoCanonical \<mapsto> Picture 500 400 ''webp''))(photoStaged := None))"
    using inst[of "photoCrop\<lparr>crop_width := 100000\<rparr>" heightOnlySharp _ 400]
      probe_codecs(12)
    by (simp add: photoCrop_def catchAll_def
        probe_codec_tail[OF probe_codecs(7,8,9), of 10 100000 20 150])
  have e: "cropImage Posix heightOnlySharp freshStore photoUpload (photoCrop\<lparr>crop_y := 300\<rparr>)
     = (Inl (InternalServerErrorException
               (''Error cropping image: '' @ cropExceedsMessage None (Some 400))), freshStore)"
    using inst[of "photoCrop\<lparr>crop_y := 300\<rparr>" heightOnlySharp _ 400]
      probe_codecs(12)
    by (simp add: photoCrop_def)
  from a b c d e show ?thesis by blast
qed

text \<open>
  The claim as stated lets the check never fire as soon as one of the two dimensions is
  missing; with the width reported as 500 and no height, the rectangle of width 200 at
  offset 400 is rejected by the check.
\<close>

theorem cropImage_one_dimension_counterexample:
  "freshStore photoStaged = Some (Picture 500 400 ''jpeg'')
   \<and> sharp_metadata widthOnlySharp (Picture 500 400 ''jpeg'') = Inr (Some 500, None)
   \<and> 0 \<le> crop_x (photoCrop\<lparr>crop_x := 400\<rparr>) \<and> 0 \<le> crop_y (photoCrop\<lparr>crop_x := 400\<rparr>)
   \<and> 0 < crop_width (photoCrop\<lparr>crop_x := 400\<rparr>) \<and> 0 < crop_height (photoCrop\<lparr>crop_x := 400\<rparr>)
   \<and> cropImage Posix widthOnlySharp freshStore photoUpload (photoCrop\<lparr>crop_x := 400\<rparr>)
       = (Inl (InternalServerErrorException
                 ''Error cropping image: Crop area exceeds image dimensions. Image dimensions: 500xundefined.''),
          freshStore)"
  using freshStore_files(1) probe_codecs(11)
  by (simp add: cropImage_checks[where fs = freshStore and filePath = photoStaged,
                  OF photo_paths freshStore_files(1) probe_codecs(11)]
      photoCrop_def exceeds_def undefined_messages)

lemma stale_run:
  "cropImage Posix pictureSharp staleStore photoUpload photoCrop
     = (Inl (InternalServerErrorException (''Error cropping image: '' @ badExtractArea)),
        staleStore(photoStaged := None))"
proof -
  have fmt: "sharp_toFormat pictureSharp DEFAULT_FORMAT = None"
    by (simp add: pictureSharp_def pictureToFormat_def knownFormats_def DEFAULT_FORMAT_def)
  have ext: "sharp_extract pictureSharp (Picture 100 100 ''webp'') 10 20 200 150 DEFAULT_FORMAT
               = Inl badExtractArea"
    by (simp add: pictureSharp_def)
  have tail: "cropConvertExtract Posix pictureSharp staleStore photoStaged ''photo''
                photoCanonical 10 20 200 150 DEFAULT_FORMAT
              = (Inl (Error badExtractArea), staleStore(photoStaged := None))"
    using staleStore_files photo_paths_distinct(1)
    by (simp add: cropConvertExtract_def convertToWebP_cases fmt ext sharpInput_def
        toFile_def Let_def)
  have "cropImage Posix pictureSharp staleStore photoUpload photoCrop
          = catchAll ''Error cropping image: ''
              (cropConvertExtract Posix pictureSharp staleStore photoStaged ''photo''
                 photoCanonical 10 20 200 150 DEFAULT_FORMAT)"
    by (simp add: cropImage_checks[where fs = staleStore and filePath = photoStaged,
                    OF photo_paths staleStore_files(1) picture_metadata]
        photoCrop_def exceeds_def)
  then show ?thesis
    by (simp add: tail catchAll_def)
qed

lemma fresh_crop_run:
  "cropImage Posix pictureSharp freshStore photoUpload photoCrop
     = (Inr photoCropped,
        ((freshStore(photoCanonical \<mapsto> Picture 500 400 ''webp''))(photoStaged := None))
          (photoCropped \<mapsto> Picture 200 150 ''webp''))"
proof -
  have fmt: "sharp_toFormat pictureSharp DEFAULT_FORMAT = None"
    by (simp add: pictureSharp_def pictureToFormat_def knownFormats_def DEFAULT_FORMAT_def)
  have enc: "sharp_webp pictureSharp (Picture 500 400 ''jpeg'') = Inr (Picture 500 400 ''webp'')"
    by (simp add: pictureSharp_def)
  have ext: "sharp_extract pictureSharp (Picture 500 400 ''webp'') 10 20 200 150 DEFAULT_FORMAT
               = Inr (Picture 200 150 ''webp'')"
    by (simp add: pictureSharp_def DEFAULT_FORMAT_def)
  have tail: "cropConvertExtract Posix pictureSharp freshStore photoStaged ''photo''
                photoCanonical 10 20 200 150 DEFAULT_FORMAT
              = (Inr photoCropped,
        ((freshStore(photoCanonical \<mapsto> Picture 500 400 ''webp''))(photoStaged := None))
          (photoCropped \<mapsto> Picture 200 150 ''webp''))"
    using freshStore_files photo_paths_distinct(1)
    by (simp add: cropConvertExtract_def convertToWebP_cases fmt enc ext sharpInput_def
        toFile_def Let_def photo_cropped)
  have "cropImage Posix pictureSharp freshStore photoUpload photoCrop
          = catchAll ''Error cropping image: ''
              (cropConvertExtract Posix pictureSharp freshStore photoStaged ''photo''
                 photoCanonical 10 20 200 150 DEFAULT_FORMAT)"
    by (simp add: cropImage_checks[where fs = freshStore and filePath = photoStaged,
                    OF photo_paths freshStore_files(1) picture_metadata]
        photoCrop_def exceeds_def)
  then show ?thesis
    by (simp add: tail catchAll_def)
qed

lemma game_config:
  "map_of ImageConfig GAME = Some \<lparr>cfg_width = 184, cfg_height = 256, cfg_suffix = ''thumbnail''\<rparr>"
  "isValidImageType GAME" "GAME \<noteq> PROMOTION"
  by (simp_all add: ImageConfig_def isValidImageType_def GAME_def PROMOTION_def)

lemma config_suffix:
  "map_of ImageConfig imageType = Some cfg \<Longrightarrow>
     cfg_suffix cfg = ''thumbnail'' \<or> cfg_suffix cfg = ''resized''"
  by (auto simp: ImageConfig_def split: if_splits)

lemma fresh_upload_run:
  "processImage Posix pictureSharp (newService None) freshStore photoUpload GAME
     = (Inr \<lparr>original = ''http://localhost:3000/images/uploads/photo.webp'',
            variation = ''http://localhost:3000/images/processed/photo-thumbnail.webp''\<rparr>,
        ((freshStore(photoCanonical \<mapsto> Picture 500 400 ''webp''))(photoStaged := None))
          (photoThumbnail \<mapsto> Picture 184 147 ''webp''))"
proof -
  have enc: "sharp_webp pictureSharp (Picture 500 400 ''jpeg'') = Inr (Picture 500 400 ''webp'')"
    by (simp add: pictureSharp_def)
  have res: "sharp_resize pictureSharp (Picture 500 400 ''webp'') 184 256 Inside photoThumbnail
               = Inr (Picture 184 147 ''webp'')"
    by (simp add: pictureSharp_def photoThumbnail_def lastDot_def)
  have conv: "convertToWebP pictureSharp freshStore photoStaged photoCanonical
     = (Inr (), (freshStore(photoCanonical \<mapsto> Picture 500 400 ''webp''))(photoStaged := None))"
    using freshStore_files by (simp add: convertToWebP_cases enc)
  have gen: "generateVariations Posix pictureSharp
               ((freshStore(photoCanonical \<mapsto> Picture 500 400 ''webp''))(photoStaged := None))
               ''photo'' photoCanonical GAME
             = (Inr photoThumbnail,
                ((freshStore(photoCanonical \<mapsto> Picture 500 400 ''webp''))(photoStaged := None))
                  (photoThumbnail \<mapsto> Picture 184 147 ''webp''))"
    using photo_paths_distinct(1)
    by (simp add: generateVariations_def game_config photo_thumbnail sharpInput_def res
        toFile_def Let_def)
  have srv: "server (newService None) = ''http://localhost:3000''"
    by code_simp
  have acc: "access freshStore photoStaged"
    by (simp add: access_def freshStore_files)
  have run: "processImage Posix pictureSharp (newService None) freshStore photoUpload GAME
     = (Inr \<lparr>original = server (newService None) @ ''/'' @ photoCanonical,
            variation = server (newService None) @ ''/'' @ photoThumbnail\<rparr>,
        ((freshStore(photoCanonical \<mapsto> Picture 500 400 ''webp''))(photoStaged := None))
          (photoThumbnail \<mapsto> Picture 184 147 ''webp''))"
    by (simp add: processImage_def photo_paths ensureFileExists_def acc processImageTry_def
        game_config conv gen catchAll_def)
  have urls: "server (newService None) @ ''/'' @ photoCanonical
                = ''http://localhost:3000/images/uploads/photo.webp''"
    "server (newService None) @ ''/'' @ photoThumbnail
                = ''http://localhost:3000/images/processed/photo-thumbnail.webp''"
    by (simp_all add: srv photoCanonical_def photoThumbnail_def)
  show ?thesis
    unfolding run urls by simp
qed

lemma win_paths: "getFilePaths Win32 photoUpload = (winStaged, ''photo'', winCanonical)"
  by code_simp

lemma win_thumbnail:
  "getOutputPath Win32 OUTPUT_DIR ''photo'' ''thumbnail'' DEFAULT_FORMAT = winThumbnail"
  by code_simp

lemma win_upload_run:
  "processImage Win32 pictureSharp (newService None) winStore photoUpload GAME
     = (Inr \<lparr>original = ''http://localhost:3000/'' @ winCanonical,
            variation = ''http://localhost:3000/'' @ winThumbnail\<rparr>,
        ((winStore(winCanonical \<mapsto> Picture 500 400 ''webp''))(winStaged := None))
          (winThumbnail \<mapsto> Picture 184 147 ''webp''))"
proof -
  have ne: "winStaged \<noteq> winCanonical"
    by (simp add: winStaged_def winCanonical_def photoUpload_def)
  have files: "winStore winStaged = Some (Picture 500 400 ''jpeg'')" "winStore winCanonical = None"
    using ne by (simp_all add: winStore_def noFiles_def)
  have enc: "sharp_webp pictureSharp (Picture 500 400 ''jpeg'') = Inr (Picture 500 400 ''webp'')"
    by (simp add: pictureSharp_def)
  have res: "sharp_resize pictureSharp (Picture 500 400 ''webp'') 184 256 Inside winThumbnail
               = Inr (Picture 184 147 ''webp'')"
    by (simp add: pictureSharp_def winThumbnail_def lastDot_def backslash_def)
  have conv: "convertToWebP pictureSharp winStore winStaged winCanonical
     = (Inr (), (winStore(winCanonical \<mapsto> Picture 500 400 ''webp''))(winStaged := None))"
    using files by (simp add: convertToWebP_cases enc)
  have gen: "generateVariations Win32 pictureSharp
               ((winStore(winCanonical \<mapsto> Picture 500 400 ''webp''))(winStaged := None))
               ''photo'' winCanonical GAME
             = (Inr winThumbnail,
                ((winStore(winCanonical \<mapsto> Picture 500 400 ''webp''))(winStaged := None))
                  (winThumbnail \<mapsto> Picture 184 147 ''webp''))"
    using ne
    by (simp add: generateVariations_def game_config win_thumbnail sharpInput_def res
        toFile_def Let_def)
  have srv: "server (newService None) = ''http://localhost:3000''"
    by code_simp
  have acc: "access winStore winStaged"
    by (simp add: access_def files)
  show ?thesis
    by (simp add: processImage_def win_paths ensureFileExists_def acc processImageTry_def
        game_config conv gen catchAll_def srv)
qed

text \<open>
  Claim C5, as amended. Let a crop request pass both checks against the size \<open>W\<close> by
  \<open>H\<close> probed from the staged file, let no file exist at the canonical path before the
  request, and let the codec's re-encoding succeed and report the same width and height
  as the staged file. Then the file the extraction reads is that re-encoding, its size is
  \<open>W\<close> by \<open>H\<close>, and the rectangle lies within it. When a file already exists at the
  canonical path, the conversion keeps it and the extraction reads that older file, whose
  size is unrelated to the one the checks used.
\<close>

theorem crop_within_fresh_canonical:
  assumes "getFilePaths pf file = (filePath, fileBaseName, originalOutputPath)"
    and "fs filePath = Some staged"
    and "fs originalOutputPath = None"
    and "sharp_metadata cd staged = Inr (Some W, Some H)"
    and "sharp_webp cd staged = Inr canonical"
    and "sharp_metadata cd canonical = sharp_metadata cd staged"
    and "0 \<le> crop_x c" and "0 \<le> crop_y c" and "0 < crop_width c" and "0 < crop_height c"
    and "crop_x c + crop_width c \<le> int W" and "crop_y c + crop_height c \<le> int H"
    and "fmt = (case outputFormat c of None \<Rightarrow> DEFAULT_FORMAT | Some f \<Rightarrow> f)"
    and "converted = (fs(originalOutputPath \<mapsto> canonical))(filePath := None)"
    and "croppedFilePath = getOutputPath pf OUTPUT_DIR fileBaseName ''cropped'' fmt"
  shows "convertToWebP cd fs filePath originalOutputPath = (Inr (), converted)
       \<and> sharpInput converted originalOutputPath = Inr canonical
       \<and> sharp_metadata cd canonical = Inr (Some W, Some H)
       \<and> \<not> exceeds (crop_x c + crop_width c) (Some W)
       \<and> \<not> exceeds (crop_y c + crop_height c) (Some H)
       \<and> cropImage pf cd fs file c
           = catchAll ''Error cropping image: ''
               (case sharp_toFormat cd fmt of
                  Some m \<Rightarrow> (Inl (Error m), converted)
                | None \<Rightarrow>
                    (case toFile converted croppedFilePath
                            (sharp_extract cd canonical (crop_x c) (crop_y c)
                               (crop_width c) (crop_height c) fmt) of
                       (Inl e, fs2) \<Rightarrow> (Inl e, fs2)
                     | (Inr u, fs2) \<Rightarrow> (Inr croppedFilePath, fs2)))"
proof -
  have ne: "filePath \<noteq> originalOutputPath"
    using assms(2,3) by auto
  have conv: "convertToWebP cd fs filePath originalOutputPath = (Inr (), converted)"
    using assms(2,3,5,14) by (simp add: convertToWebP_cases)
  have inp: "sharpInput converted originalOutputPath = Inr canonical"
    using ne assms(14) by (simp add: sharpInput_def)
  have ok: "\<not> exceeds (crop_x c + crop_width c) (Some W)"
           "\<not> exceeds (crop_y c + crop_height c) (Some H)"
    using assms(11,12) by (simp_all add: exceeds_def)
  have chk: "cropImage pf cd fs file c
           = catchAll ''Error cropping image: ''
               (cropConvertExtract pf cd fs filePath fileBaseName originalOutputPath
                  (crop_x c) (crop_y c) (crop_width c) (crop_height c) fmt)"
    using cropImage_checks[where fs = fs and filePath = filePath, OF assms(1,2,4), of c]
      assms(7-10) ok assms(13)
    by simp
  have tail: "cropConvertExtract pf cd fs filePath fileBaseName originalOutputPath
                  (crop_x c) (crop_y c) (crop_width c) (crop_height c) fmt
            = (case sharp_toFormat cd fmt of
                  Some m \<Rightarrow> (Inl (Error m), converted)
                | None \<Rightarrow>
                    (case toFile converted croppedFilePath
                            (sharp_extract cd canonical (crop_x c) (crop_y c)
                               (crop_width c) (crop_height c) fmt) of
                       (Inl e, fs2) \<Rightarrow> (Inl e, fs2)
                     | (Inr u, fs2) \<Rightarrow> (Inr croppedFilePath, fs2)))"
    unfolding assms(15)
    by (simp add: cropConvertExtract_def conv inp Let_def split: option.splits)
  show ?thesis
    using conv inp ok chk tail assms(4,6) by simp
qed

theorem crop_within_fresh_canonical_witness:
  "convertToWebP pictureSharp freshStore photoStaged photoCanonical
     = (Inr (), (freshStore(photoCanonical \<mapsto> Picture 500 400 ''webp''))(photoStaged := None))
   \<and> sharpInput ((freshStore(photoCanonical \<mapsto> Picture 500 400 ''webp''))(photoStaged := None))
        photoCanonical = Inr (Picture 500 400 ''webp'')
   \<and> sharp_metadata pictureSharp (Picture 500 400 ''webp'') = Inr (Some 500, Some 400)
   \<and> \<not> exceeds (crop_x photoCrop + crop_width photoCrop) (Some 500)
   \<and> \<not> exceeds (crop_y photoCrop + crop_height photoCrop) (Some 400)
   \<and> cropImage Posix pictureSharp freshStore photoUpload photoCrop
     = (Inr photoCropped,
        ((freshStore(photoCanonical \<mapsto> Picture 500 400 ''webp''))(photoStaged := None))
          (photoCropped \<mapsto> Picture 200 150 ''webp''))"
proof -
  have enc: "sharp_webp pictureSharp (Picture 500 400 ''jpeg'') = Inr (Picture 500 400 ''webp'')"
    by (simp add: pictureSharp_def)
  have same: "sharp_metadata pictureSharp (Picture 500 400 ''webp'')
                = sharp_metadata pictureSharp (Picture 500 400 ''jpeg'')"
    by (simp add: pictureSharp_def)
  note inst = crop_within_fresh_canonical
      [where fs = freshStore and filePath = photoStaged and c = photoCrop
         and fmt = DEFAULT_FORMAT and W = 500 and H = 400
         and converted = "(freshStore(photoCanonical \<mapsto> Picture 500 400 ''webp''))(photoStaged := None)"
         and croppedFilePath = photoCropped,
       OF photo_paths freshStore_files picture_metadata enc same]
  have "convertToWebP pictureSharp freshStore photoStaged photoCanonical
     = (Inr (), (freshStore(photoCanonical \<mapsto> Picture 500 400 ''webp''))(photoStaged := None))
   \<and> sharpInput ((freshStore(photoCanonical \<mapsto> Picture 500 400 ''webp''))(photoStaged := None))
        photoCanonical = Inr (Picture 500 400 ''webp'')
   \<and> sharp_metadata pictureSharp (Picture 500 400 ''webp'') = Inr (Some 500, Some 400)
   \<and> \<not> exceeds (crop_x photoCrop + crop_width photoCrop) (Some 500)
   \<and> \<not> exceeds (crop_y photoCrop + crop_height photoCrop) (Some 400)"
    using inst by (simp add: photoCrop_def photo_cropped)
  then show ?thesis
    using fresh_crop_run by simp
qed

text \<open>
  The claim as stated also covers a canonical file that existed before the request. With
  a 100 by 100 file at the canonical path and a 500 by 400 staged upload, the rectangle
  (10, 20, 200, 150) passes both checks and the extraction fails on the older file.
\<close>

theorem crop_stale_canonical_counterexample:
  "staleStore photoStaged = Some (Picture 500 400 ''jpeg'')
   \<and> sharp_metadata pictureSharp (Picture 500 400 ''jpeg'') = Inr (Some 500, Some 400)
   \<and> 0 \<le> crop_x photoCrop \<and> 0 \<le> crop_y photoCrop
   \<and> 0 < crop_width photoCrop \<and> 0 < crop_height photoCrop
   \<and> \<not> exceeds (crop_x photoCrop + crop_width photoCrop) (Some 500)
   \<and> \<not> exceeds (crop_y photoCrop + crop_height photoCrop) (Some 400)
   \<and> staleStore photoCanonical = Some (Picture 100 100 ''webp'')
   \<and> sharp_metadata pictureSharp (Picture 100 100 ''webp'') = Inr (Some 100, Some 100)
   \<and> exceeds (crop_x photoCrop + crop_width photoCrop) (Some 100)
   \<and> cropImage Posix pictureSharp staleStore photoUpload photoCrop
       = (Inl (InternalServerErrorException (''Error cropping image: '' @ badExtractArea)),
          staleStore(photoStaged := None))"
  using stale_run staleStore_files
  by (simp add: picture_metadata photoCrop_def exceeds_def)

text \<open>
  Claim C8, as amended. On a POSIX host, for every successful upload whose staged file
  name holds no backslash, the two URLs are \<open>http://localhost:\<close>, the port, a slash and
  the path \<open>path.join\<close> returned for the canonical and for the variant file, and no
  backslash occurs in either URL. The service does not normalise separators itself: the
  path is inserted as \<open>path.join\<close> wrote it, so on a Windows host the URLs hold the
  backslashes of the platform.
\<close>

theorem processImage_urls_posix:
  assumes "processImage Posix cd (newService port) fs file imageType = (Inr r, fs')"
    and "getFilePaths Posix file = (filePath, fileBaseName, originalOutputPath)"
    and "backslash \<notin> set (filename file)"
  shows "\<exists>cfg. map_of ImageConfig imageType = Some cfg
           \<and> original r = ''http://localhost:''
                 @ showNat (case port of None \<Rightarrow> 3000 | Some p \<Rightarrow> p) @ ''/''
                 @ path_join Posix UPLOAD_DIR (fileBaseName @ ''.'' @ DEFAULT_FORMAT)
           \<and> variation r = ''http://localhost:''
                 @ showNat (case port of None \<Rightarrow> 3000 | Some p \<Rightarrow> p) @ ''/''
                 @ path_join Posix OUTPUT_DIR
                     (fileBaseName @ ''-'' @ cfg_suffix cfg @ ''.'' @ DEFAULT_FORMAT)
           \<and> backslash \<notin> set (original r) \<and> backslash \<notin> set (variation r)"
proof -
  from processImage_success[OF assms(1,2)] obtain converted outputPath where
    gen: "generateVariations Posix cd converted fileBaseName originalOutputPath imageType
            = (Inr outputPath, fs')"
    and r: "r = \<lparr>original = server (newService port) @ ''/'' @ originalOutputPath,
                  variation = server (newService port) @ ''/'' @ outputPath\<rparr>"
    by blast
  from generateVariations_success[OF gen] obtain cfg where
    cfg: "map_of ImageConfig imageType = Some cfg"
    and op: "outputPath = getOutputPath Posix OUTPUT_DIR fileBaseName (cfg_suffix cfg) DEFAULT_FORMAT"
    by blast
  have base: "fileBaseName = stripToken (path_parse_name Posix (filename file))"
    and cp: "originalOutputPath = path_join Posix UPLOAD_DIR (fileBaseName @ ''.'' @ DEFAULT_FORMAT)"
    using assms(2) by (auto simp: getFilePaths_def Let_def)
  have nb: "backslash \<notin> set fileBaseName"
    using assms(3) stripToken_chars path_parse_name_chars unfolding base by blast
  have plain: "backslash \<noteq> CHR ''.''" "backslash \<noteq> path_sep Posix"
    "backslash \<notin> set UPLOAD_DIR" "backslash \<notin> set OUTPUT_DIR" "backslash \<notin> set DEFAULT_FORMAT"
    "backslash \<notin> set ''thumbnail''" "backslash \<notin> set ''resized''"
    by (simp_all add: backslash_def path_sep_def UPLOAD_DIR_def OUTPUT_DIR_def DEFAULT_FORMAT_def)
  have cpb: "backslash \<notin> set originalOutputPath"
    using path_join_chars[of backslash Posix UPLOAD_DIR "fileBaseName @ ''.'' @ DEFAULT_FORMAT"]
      nb plain unfolding cp by auto
  have opb: "backslash \<notin> set outputPath"
    using path_join_chars[of backslash Posix OUTPUT_DIR
            "fileBaseName @ ''-'' @ cfg_suffix cfg @ ''.'' @ DEFAULT_FORMAT"]
      nb plain config_suffix[OF cfg] unfolding op getOutputPath_def
    by (auto simp: backslash_def)
  have srv: "server (newService port)
               = ''http://localhost:'' @ showNat (case port of None \<Rightarrow> 3000 | Some p \<Rightarrow> p)"
    by (simp add: newService_def Let_def)
  have url: "backslash \<noteq> CHR ''/''"
    by (simp add: backslash_def)
  have o: "original r = ''http://localhost:''
                 @ showNat (case port of None \<Rightarrow> 3000 | Some p \<Rightarrow> p) @ ''/''
                 @ path_join Posix UPLOAD_DIR (fileBaseName @ ''.'' @ DEFAULT_FORMAT)"
    unfolding r srv cp by simp
  have v: "variation r = ''http://localhost:''
                 @ showNat (case port of None \<Rightarrow> 3000 | Some p \<Rightarrow> p) @ ''/''
                 @ path_join Posix OUTPUT_DIR
                     (fileBaseName @ ''-'' @ cfg_suffix cfg @ ''.'' @ DEFAULT_FORMAT)"
    unfolding r srv op getOutputPath_def by simp
  have ob: "backslash \<notin> set (original r)"
    using cpb server_no_backslash[of port] url by (simp add: r)
  have vb: "backslash \<notin> set (variation r)"
    using opb server_no_backslash[of port] url by (simp add: r)
  show ?thesis
    using cfg o v ob vb by blast
qed

theorem processImage_urls_posix_witness:
  "backslash \<notin> set (filename photoUpload)
   \<and> fst (processImage Posix pictureSharp (newService None) freshStore photoUpload GAME)
       = Inr \<lparr>original = ''http://localhost:3000/images/uploads/photo.webp'',
              variation = ''http://localhost:3000/images/processed/photo-thumbnail.webp''\<rparr>
   \<and> backslash \<notin> set ''http://localhost:3000/images/uploads/photo.webp''
   \<and> backslash \<notin> set ''http://localhost:3000/images/processed/photo-thumbnail.webp''"
proof -
  have nb: "backslash \<notin> set (filename photoUpload)"
    by (simp add: photoUpload_def photoToken_def backslash_def)
  from processImage_urls_posix[OF fresh_upload_run photo_paths nb]
  have "backslash \<notin> set (original
            \<lparr>original = ''http://localhost:3000/images/uploads/photo.webp'',
             variation = ''http://localhost:3000/images/processed/photo-thumbnail.webp''\<rparr>)
      \<and> backslash \<notin> set (variation
            \<lparr>original = ''http://localhost:3000/images/uploads/photo.webp'',
             variation = ''http://localhost:3000/images/processed/photo-thumbnail.webp''\<rparr>)"
    by blast
  then show ?thesis
    using nb by (simp add: fresh_upload_run)
qed

text \<open>
  The claim as stated holds on every platform; on Windows the same upload is answered with
  backslashes in both URLs.
\<close>

theorem processImage_urls_win32_counterexample:
  "fst (processImage Win32 pictureSharp (newService None) winStore photoUpload GAME)
     = Inr \<lparr>original = ''http://localhost:3000/images'' @ backslash # ''uploads''
                         @ backslash # ''photo.webp'',
            variation = ''http://localhost:3000/images'' @ backslash # ''processed''
                          @ backslash # ''photo-thumbnail.webp''\<rparr>
   \<and> backslash \<in> set (''http://localhost:3000/images'' @ backslash # ''uploads''
                         @ backslash # ''photo.webp'')
   \<and> backslash \<in> set (''http://localhost:3000/images'' @ backslash # ''processed''
                          @ backslash # ''photo-thumbnail.webp'')"
  by (simp add: win_upload_run winCanonical_def winThumbnail_def)

subsection \<open>The three paths of a staged name\<close>

lemma segments_plain: "noSeparator pf n \<Longrightarrow> segments (isPathSeparator pf) n = [n]"
  by (induction n) (simp_all add: noSeparator_def)

lemma join_upload_dir:
  assumes "isSimpleName pf n"
  shows "path_join pf UPLOAD_DIR n = ''images'' @ path_sep pf # ''uploads'' @ path_sep pf # n"
proof -
  have sep: "isPathSeparator pf (path_sep pf)"
    by (cases pf) (simp_all add: isPathSeparator_def path_sep_def)
  have plain: "noSeparator pf n" "n \<noteq> []" "n \<noteq> ''.''" "n \<noteq> ''..''"
    using assms by (simp_all add: isSimpleName_def)
  have last: "\<not> isPathSeparator pf (last n)"
    using plain(1,2) by (simp add: noSeparator_def list_all_iff)
  have segs: "segments (isPathSeparator pf) (UPLOAD_DIR @ path_sep pf # n)
                = [''.'', ''images'', ''uploads'', n]"
    using sep by (simp add: UPLOAD_DIR_def segments_plain[OF plain(1)] isPathSeparator_def
        backslash_def)
  show ?thesis
    using plain last
    by (simp add: path_join_def path_normalize_def Let_def segs)
       (simp add: UPLOAD_DIR_def isPathSeparator_def backslash_def)
qed

lemma join_output_dir:
  assumes "isSimpleName pf n"
  shows "path_join pf OUTPUT_DIR n = ''images'' @ path_sep pf # ''processed'' @ path_sep pf # n"
proof -
  have sep: "isPathSeparator pf (path_sep pf)"
    by (cases pf) (simp_all add: isPathSeparator_def path_sep_def)
  have plain: "noSeparator pf n" "n \<noteq> []" "n \<noteq> ''.''" "n \<noteq> ''..''"
    using assms by (simp_all add: isSimpleName_def)
  have last: "\<not> isPathSeparator pf (last n)"
    using plain(1,2) by (simp add: noSeparator_def list_all_iff)
  have segs: "segments (isPathSeparator pf) (OUTPUT_DIR @ path_sep pf # n)
                = [''.'', ''images'', ''processed'', n]"
    using sep by (simp add: OUTPUT_DIR_def segments_plain[OF plain(1)] isPathSeparator_def
        backslash_def)
  show ?thesis
    using plain last
    by (simp add: path_join_def path_normalize_def Let_def segs)
       (simp add: OUTPUT_DIR_def isPathSeparator_def backslash_def)
qed

lemma member_differs: "c \<in> set n \<Longrightarrow> c \<notin> set m \<Longrightarrow> n \<noteq> m"
  by auto

lemma long_name_simple:
  assumes "noSeparator pf n" and "3 \<le> length n"
  shows "isSimpleName pf n"
proof -
  have "n \<noteq> []" "n \<noteq> ''.''" "n \<noteq> ''..''"
    using assms(2) by auto
  with assms(1) show ?thesis by (simp add: isSimpleName_def)
qed

text \<open>
  For a staged name as the upload staging writes it, the staged path, the canonical path
  and an output path are three different paths.
\<close>

lemma staged_paths_distinct:
  assumes tok: "isToken token"
    and sep: "noSeparator pf (base @ ext)"
    and ext: "isExtensionOf ext base"
    and drive: "pf = Posix \<or> \<not> hasDriveRoot (base @ CHR ''-'' # token @ ext)"
    and out: "noSeparator pf (suffix @ fmt)"
    and paths: "getFilePaths pf \<lparr>filename = base @ ''-'' @ token @ ext\<rparr>
                  = (filePath, fileBaseName, originalOutputPath)"
  shows "fileBaseName = base"
    and "filePath \<noteq> originalOutputPath"
    and "filePath \<noteq> getOutputPath pf OUTPUT_DIR fileBaseName suffix fmt"
    and "originalOutputPath \<noteq> getOutputPath pf OUTPUT_DIR fileBaseName suffix fmt"
proof -
  have plain: "\<not> isPathSeparator pf (CHR ''-'')" "\<not> isPathSeparator pf (CHR ''.'')"
    "noSeparator pf DEFAULT_FORMAT"
    by (simp_all add: isPathSeparator_def backslash_def DEFAULT_FORMAT_def noSeparator_def)
  have stem: "path_parse_name pf (base @ CHR ''-'' # token @ ext) = base @ CHR ''-'' # token"
    by (rule staged_name_stem[OF tok sep ext drive])
  show base: "fileBaseName = base"
    using paths stem stripToken_token[OF tok, of base]
    by (simp add: getFilePaths_def Let_def)
  have len: "length token = 36"
    using tok by (simp add: isToken_def)
  have s1: "isSimpleName pf (base @ CHR ''-'' # token @ ext)"
    using sep token_noSeparator[OF tok] plain len by (intro long_name_simple) simp_all
  have s2: "isSimpleName pf (base @ CHR ''.'' # DEFAULT_FORMAT)"
    using sep plain by (intro long_name_simple) (simp_all add: DEFAULT_FORMAT_def)
  have s3: "isSimpleName pf (base @ CHR ''-'' # suffix @ CHR ''.'' # fmt)"
  proof -
    have "noSeparator pf (base @ CHR ''-'' # suffix @ CHR ''.'' # fmt)"
      using sep out plain by simp
    moreover have "base @ CHR ''-'' # suffix @ CHR ''.'' # fmt \<noteq> []" by simp
    moreover have "base @ CHR ''-'' # suffix @ CHR ''.'' # fmt \<noteq> ''.''"
      by (rule member_differs[where c = "CHR ''-''"]) simp_all
    moreover have "base @ CHR ''-'' # suffix @ CHR ''.'' # fmt \<noteq> ''..''"
      by (rule member_differs[where c = "CHR ''-''"]) simp_all
    ultimately show ?thesis by (simp add: isSimpleName_def)
  qed
  have fp: "filePath = ''images'' @ path_sep pf # ''uploads'' @ path_sep pf
                         # base @ CHR ''-'' # token @ ext"
    using paths join_upload_dir[OF s1] by (simp add: getFilePaths_def Let_def)
  have cp: "originalOutputPath = ''images'' @ path_sep pf # ''uploads'' @ path_sep pf
                                   # base @ CHR ''.'' # DEFAULT_FORMAT"
    using paths join_upload_dir[OF s2] base stem stripToken_token[OF tok, of base]
    by (simp add: getFilePaths_def Let_def)
  have op: "getOutputPath pf OUTPUT_DIR fileBaseName suffix fmt
              = ''images'' @ path_sep pf # ''processed'' @ path_sep pf
                  # base @ CHR ''-'' # suffix @ CHR ''.'' # fmt"
    using join_output_dir[OF s3] by (simp add: getOutputPath_def base)
  show "filePath \<noteq> originalOutputPath"
    unfolding fp cp by simp
  show "filePath \<noteq> getOutputPath pf OUTPUT_DIR fileBaseName suffix fmt"
    unfolding fp op by simp
  show "originalOutputPath \<noteq> getOutputPath pf OUTPUT_DIR fileBaseName suffix fmt"
    unfolding cp op by simp
qed

text \<open>
  The canonical path differs from every output path whose suffix and format hold no
  separator, whatever the file name: the base name is a single segment, so the first
  lies in the upload directory and the second in the output directory.
\<close>

lemma path_stem_noSeparator: "noSeparator pf (path_stem pf p)"
proof -
  have "\<forall>c\<in>set (path_base pf p). \<not> isPathSeparator pf c"
    by (auto simp: path_base_def dest: set_takeWhileD)
  then have "\<forall>c\<in>set (path_stem pf p). \<not> isPathSeparator pf c"
    by (auto simp: path_stem_def Let_def dest: in_set_takeD)
  then show ?thesis by (simp add: noSeparator_def list_all_iff)
qed

lemma parse_name_noSeparator: "noSeparator pf (path_parse_name pf p)"
proof (cases pf)
  case Win32
  then show ?thesis
    using path_stem_noSeparator[of Win32] by (simp add: path_parse_name_def)
next
  case Posix
  have "noSeparator Posix ''.''"
    by (simp add: noSeparator_def isPathSeparator_def)
  with Posix show ?thesis
    using path_stem_noSeparator[of Posix] by (simp add: path_parse_name_def)
qed

lemma stripToken_noSeparator: "noSeparator pf s \<Longrightarrow> noSeparator pf (stripToken s)"
  by (auto simp: noSeparator_def list_all_iff dest: stripToken_chars)

lemma canonical_differs_from_output:
  assumes paths: "getFilePaths pf upload = (filePath, fileBaseName, originalOutputPath)"
    and out: "noSeparator pf (suffix @ fmt)"
  shows "originalOutputPath \<noteq> getOutputPath pf OUTPUT_DIR fileBaseName suffix fmt"
proof -
  have plain: "\<not> isPathSeparator pf (CHR ''-'')" "\<not> isPathSeparator pf (CHR ''.'')"
    "noSeparator pf DEFAULT_FORMAT"
    by (simp_all add: isPathSeparator_def backslash_def DEFAULT_FORMAT_def noSeparator_def)
  have base: "fileBaseName = stripToken (path_parse_name pf (filename upload))"
    and cp: "originalOutputPath = path_join pf UPLOAD_DIR (fileBaseName @ ''.'' @ DEFAULT_FORMAT)"
    using paths by (auto simp: getFilePaths_def Let_def)
  have nb: "noSeparator pf fileBaseName"
    unfolding base by (intro stripToken_noSeparator parse_name_noSeparator)
  have s2: "isSimpleName pf (fileBaseName @ CHR ''.'' # DEFAULT_FORMAT)"
    using nb plain by (intro long_name_simple) (simp_all add: DEFAULT_FORMAT_def)
  have s3: "isSimpleName pf (fileBaseName @ CHR ''-'' # suffix @ CHR ''.'' # fmt)"
  proof -
    have "noSeparator pf (fileBaseName @ CHR ''-'' # suffix @ CHR ''.'' # fmt)"
      using nb out plain by simp
    moreover have "fileBaseName @ CHR ''-'' # suffix @ CHR ''.'' # fmt \<noteq> []" by simp
    moreover have "fileBaseName @ CHR ''-'' # suffix @ CHR ''.'' # fmt \<noteq> ''.''"
      by (rule member_differs[where c = "CHR ''-''"]) simp_all
    moreover have "fileBaseName @ CHR ''-'' # suffix @ CHR ''.'' # fmt \<noteq> ''..''"
      by (rule member_differs[where c = "CHR ''-''"]) simp_all
    ultimately show ?thesis by (simp add: isSimpleName_def)
  qed
  have cp': "originalOutputPath = ''images'' @ path_sep pf # ''uploads'' @ path_sep pf
                                   # fileBaseName @ CHR ''.'' # DEFAULT_FORMAT"
    using join_upload_dir[OF s2] by (simp add: cp)
  have op: "getOutputPath pf OUTPUT_DIR fileBaseName suffix fmt
              = ''images'' @ path_sep pf # ''processed'' @ path_sep pf
                  # fileBaseName @ CHR ''-'' # suffix @ CHR ''.'' # fmt"
    using join_output_dir[OF s3] by (simp add: getOutputPath_def)
  show ?thesis
    unfolding cp' op by simp
qed

lemma config_suffix_plain:
  assumes "map_of ImageConfig imageType = Some cfg"
  shows "noSeparator pf (cfg_suffix cfg @ DEFAULT_FORMAT)"
  using config_suffix[OF assms]
  by (auto simp: noSeparator_def DEFAULT_FORMAT_def isPathSeparator_def backslash_def)

subsection \<open>What a successful request changes\<close>

lemma frame_after_convert:
  assumes conv: "convertToWebP cd fs filePath originalOutputPath = (Inr (), converted)"
    and can: "converted originalOutputPath = Some canonical"
    and fin: "fs' = converted(outputPath \<mapsto> out)"
  shows "\<exists>staged. fs filePath = Some staged \<and> filePath \<noteq> originalOutputPath
           \<and> (case fs originalOutputPath of
                 Some old \<Rightarrow> canonical = old
               | None \<Rightarrow> sharp_webp cd staged = Inr canonical)
           \<and> (\<forall>p. p \<noteq> filePath \<and> p \<noteq> originalOutputPath \<and> p \<noteq> outputPath \<longrightarrow> fs' p = fs p)
           \<and> fs' outputPath = Some out
           \<and> (filePath \<noteq> outputPath \<longrightarrow> fs' filePath = None)
           \<and> (originalOutputPath \<noteq> outputPath \<longrightarrow> fs' originalOutputPath = Some canonical)"
proof -
  from convertToWebP_success[OF conv] obtain staged where
    st: "fs filePath = Some staged"
    and mid: "(\<exists>c. fs originalOutputPath = Some c \<and> converted = fs(filePath := None))
            \<or> (fs originalOutputPath = None \<and>
                (\<exists>e. sharp_webp cd staged = Inr e
                     \<and> converted = (fs(originalOutputPath \<mapsto> e))(filePath := None)))"
    by blast
  have ne: "filePath \<noteq> originalOutputPath"
    using mid can st by auto
  from mid show ?thesis
  proof
    assume "\<exists>c. fs originalOutputPath = Some c \<and> converted = fs(filePath := None)"
    then show ?thesis using st ne fin can by auto
  next
    assume "fs originalOutputPath = None \<and>
                (\<exists>e. sharp_webp cd staged = Inr e
                     \<and> converted = (fs(originalOutputPath \<mapsto> e))(filePath := None))"
    then obtain e where none: "fs originalOutputPath = None"
      and enc: "sharp_webp cd staged = Inr e"
      and c: "converted = (fs(originalOutputPath \<mapsto> e))(filePath := None)"
      by blast
    have "e = canonical" using can c ne by simp
    then show ?thesis using st ne fin none enc c by auto
  qed
qed

text \<open>
  Claim C10. A successful \<open>processImage\<close> or \<open>cropImage\<close> changes the store at three
  paths at most: the staged path, the canonical path and the one output path (the variant
  of the image type, or the cropped file). Every other path holds what it held before.
  The staged file existed and is gone afterwards. The canonical file is the one that was
  there before when there was one, and otherwise the encoding of the staged upload. The
  output path holds what the codec made of the canonical file, whatever was at that path
  before. (The store changes in this order, so where two of the three paths coincide the
  later write is the one that shows. The staged and the canonical path never coincide in
  a successful request; the canonical path never is the variant path, nor the cropped
  path when the output format holds no separator; and for a staged name as the upload
  staging writes it the three paths are different: \<open>staged_paths_distinct\<close>.)
\<close>

theorem only_resolved_paths_change:
  "(processImage pf cd svc fs upload imageType = (Inr r, fs')
      \<and> getFilePaths pf upload = (filePath, fileBaseName, originalOutputPath) \<longrightarrow>
    (\<exists>cfg staged canonical out.
        map_of ImageConfig imageType = Some cfg
      \<and> fs filePath = Some staged \<and> filePath \<noteq> originalOutputPath
      \<and> (case fs originalOutputPath of
            Some old \<Rightarrow> canonical = old
          | None \<Rightarrow> sharp_webp cd staged = Inr canonical)
      \<and> sharp_resize cd canonical (cfg_width cfg) (cfg_height cfg)
           (if imageType = PROMOTION then Fill else Inside)
           (getOutputPath pf OUTPUT_DIR fileBaseName (cfg_suffix cfg) DEFAULT_FORMAT) = Inr out
      \<and> (\<forall>p. p \<noteq> filePath \<and> p \<noteq> originalOutputPath
              \<and> p \<noteq> getOutputPath pf OUTPUT_DIR fileBaseName (cfg_suffix cfg) DEFAULT_FORMAT
            \<longrightarrow> fs' p = fs p)
      \<and> fs' (getOutputPath pf OUTPUT_DIR fileBaseName (cfg_suffix cfg) DEFAULT_FORMAT) = Some out
      \<and> (filePath \<noteq> getOutputPath pf OUTPUT_DIR fileBaseName (cfg_suffix cfg) DEFAULT_FORMAT
            \<longrightarrow> fs' filePath = None)
      \<and> originalOutputPath
            \<noteq> getOutputPath pf OUTPUT_DIR fileBaseName (cfg_suffix cfg) DEFAULT_FORMAT
      \<and> fs' originalOutputPath = Some canonical))
   \<and> (cropImage pf cd fs upload c = (Inr croppedFilePath, fs')
      \<and> getFilePaths pf upload = (filePath, fileBaseName, originalOutputPath) \<longrightarrow>
    (\<exists>staged canonical out.
        croppedFilePath
          = getOutputPath pf OUTPUT_DIR fileBaseName ''cropped''
              (case outputFormat c of None \<Rightarrow> DEFAULT_FORMAT | Some f \<Rightarrow> f)
      \<and> fs filePath = Some staged \<and> filePath \<noteq> originalOutputPath
      \<and> (case fs originalOutputPath of
            Some old \<Rightarrow> canonical = old
          | None \<Rightarrow> sharp_webp cd staged = Inr canonical)
      \<and> sharp_extract cd canonical (crop_x c) (crop_y c) (crop_width c) (crop_height c)
           (case outputFormat c of None \<Rightarrow> DEFAULT_FORMAT | Some f \<Rightarrow> f) = Inr out
      \<and> (\<forall>p. p \<noteq> filePath \<and> p \<noteq> originalOutputPath \<and> p \<noteq> croppedFilePath \<longrightarrow> fs' p = fs p)
      \<and> fs' croppedFilePath = Some out
      \<and> (filePath \<noteq> croppedFilePath \<longrightarrow> fs' filePath = None)
      \<and> (originalOutputPath \<noteq> croppedFilePath \<longrightarrow> fs' originalOutputPath = Some canonical)
      \<and> (noSeparator pf (case outputFormat c of None \<Rightarrow> DEFAULT_FORMAT | Some f \<Rightarrow> f)
            \<longrightarrow> originalOutputPath \<noteq> croppedFilePath)))"
proof (intro conjI impI)
  assume a: "processImage pf cd svc fs upload imageType = (Inr r, fs')
      \<and> getFilePaths pf upload = (filePath, fileBaseName, originalOutputPath)"
  from processImage_success[OF conjunct1[OF a] conjunct2[OF a]] obtain converted outputPath where
    conv: "convertToWebP cd fs filePath originalOutputPath = (Inr (), converted)"
    and gen: "generateVariations pf cd converted fileBaseName originalOutputPath imageType
                = (Inr outputPath, fs')"
    by blast
  from generateVariations_success[OF gen] obtain cfg canonical out where
    cfg: "map_of ImageConfig imageType = Some cfg"
    and op: "outputPath = getOutputPath pf OUTPUT_DIR fileBaseName (cfg_suffix cfg) DEFAULT_FORMAT"
    and can: "converted originalOutputPath = Some canonical"
    and res: "sharp_resize cd canonical (cfg_width cfg) (cfg_height cfg)
                (if imageType = PROMOTION then Fill else Inside) outputPath = Inr out"
    and fin: "fs' = converted(outputPath \<mapsto> out)"
    by blast
  note canonical_differs_from_output[OF conjunct2[OF a] config_suffix_plain[OF cfg]]
  with frame_after_convert[OF conv can fin] cfg res
  show "\<exists>cfg staged canonical out.
        map_of ImageConfig imageType = Some cfg
      \<and> fs filePath = Some staged \<and> filePath \<noteq> originalOutputPath
      \<and> (case fs originalOutputPath of
            Some old \<Rightarrow> canonical = old
          | None \<Rightarrow> sharp_webp cd staged = Inr canonical)
      \<and> sharp_resize cd canonical (cfg_width cfg) (cfg_height cfg)
           (if imageType = PROMOTION then Fill else Inside)
           (getOutputPath pf OUTPUT_DIR fileBaseName (cfg_suffix cfg) DEFAULT_FORMAT) = Inr out
      \<and> (\<forall>p. p \<noteq> filePath \<and> p \<noteq> originalOutputPath
              \<and> p \<noteq> getOutputPath pf OUTPUT_DIR fileBaseName (cfg_suffix cfg) DEFAULT_FORMAT
            \<longrightarrow> fs' p = fs p)
      \<and> fs' (getOutputPath pf OUTPUT_DIR fileBaseName (cfg_suffix cfg) DEFAULT_FORMAT) = Some out
      \<and> (filePath \<noteq> getOutputPath pf OUTPUT_DIR fileBaseName (cfg_suffix cfg) DEFAULT_FORMAT
            \<longrightarrow> fs' filePath = None)
      \<and> originalOutputPath
            \<noteq> getOutputPath pf OUTPUT_DIR fileBaseName (cfg_suffix cfg) DEFAULT_FORMAT
      \<and> fs' originalOutputPath = Some canonical"
    unfolding op by blast
next
  assume a: "cropImage pf cd fs upload c = (Inr croppedFilePath, fs')
      \<and> getFilePaths pf upload = (filePath, fileBaseName, originalOutputPath)"
  from cropConvertExtract_success[OF cropImage_success[OF conjunct1[OF a] conjunct2[OF a]]]
  obtain converted canonical out where
    conv: "convertToWebP cd fs filePath originalOutputPath = (Inr (), converted)"
    and cp: "croppedFilePath
          = getOutputPath pf OUTPUT_DIR fileBaseName ''cropped''
              (case outputFormat c of None \<Rightarrow> DEFAULT_FORMAT | Some f \<Rightarrow> f)"
    and can: "converted originalOutputPath = Some canonical"
    and ext: "sharp_extract cd canonical (crop_x c) (crop_y c) (crop_width c) (crop_height c)
                (case outputFormat c of None \<Rightarrow> DEFAULT_FORMAT | Some f \<Rightarrow> f) = Inr out"
    and fin: "fs' = converted(croppedFilePath \<mapsto> out)"
    by blast
  have "noSeparator pf (case outputFormat c of None \<Rightarrow> DEFAULT_FORMAT | Some f \<Rightarrow> f)
          \<Longrightarrow> originalOutputPath \<noteq> croppedFilePath"
    using canonical_differs_from_output[OF conjunct2[OF a], of "''cropped''"]
    unfolding cp by (simp add: isPathSeparator_def backslash_def)
  with frame_after_convert[OF conv can fin] cp ext
  show "\<exists>staged canonical out.
        croppedFilePath
          = getOutputPath pf OUTPUT_DIR fileBaseName ''cropped''
              (case outputFormat c of None \<Rightarrow> DEFAULT_FORMAT | Some f \<Rightarrow> f)
      \<and> fs filePath = Some staged \<and> filePath \<noteq> originalOutputPath
      \<and> (case fs originalOutputPath of
            Some old \<Rightarrow> canonical = old
          | None \<Rightarrow> sharp_webp cd staged = Inr canonical)
      \<and> sharp_extract cd canonical (crop_x c) (crop_y c) (crop_width c) (crop_height c)
           (case outputFormat c of None \<Rightarrow> DEFAULT_FORMAT | Some f \<Rightarrow> f) = Inr out
      \<and> (\<forall>p. p \<noteq> filePath \<and> p \<noteq> originalOutputPath \<and> p \<noteq> croppedFilePath \<longrightarrow> fs' p = fs p)
      \<and> fs' croppedFilePath = Some out
      \<and> (filePath \<noteq> croppedFilePath \<longrightarrow> fs' filePath = None)
      \<and> (originalOutputPath \<noteq> croppedFilePath \<longrightarrow> fs' originalOutputPath = Some canonical)
      \<and> (noSeparator pf (case outputFormat c of None \<Rightarrow> DEFAULT_FORMAT | Some f \<Rightarrow> f)
            \<longrightarrow> originalOutputPath \<noteq> croppedFilePath)"
    by blast
qed

theorem only_resolved_paths_change_witness:
  "processImage Posix pictureSharp (newService None) freshStore photoUpload GAME
     = (Inr \<lparr>original = ''http://localhost:3000/images/uploads/photo.webp'',
            variation = ''http://localhost:3000/images/processed/photo-thumbnail.webp''\<rparr>,
        ((freshStore(photoCanonical \<mapsto> Picture 500 400 ''webp''))(photoStaged := None))
          (photoThumbnail \<mapsto> Picture 184 147 ''webp''))
   \<and> getFilePaths Posix photoUpload = (photoStaged, ''photo'', photoCanonical)
   \<and> (\<exists>cfg staged canonical out.
        map_of ImageConfig GAME = Some cfg
      \<and> freshStore photoStaged = Some staged \<and> photoStaged \<noteq> photoCanonical
      \<and> (\<forall>p. p \<noteq> photoStaged \<and> p \<noteq> photoCanonical
              \<and> p \<noteq> getOutputPath Posix OUTPUT_DIR ''photo'' (cfg_suffix cfg) DEFAULT_FORMAT
            \<longrightarrow> (((freshStore(photoCanonical \<mapsto> Picture 500 400 ''webp''))(photoStaged := None))
                   (photoThumbnail \<mapsto> Picture 184 147 ''webp'')) p = freshStore p))
   \<and> cropImage Posix pictureSharp staleStore photoUpload (photoCrop\<lparr>crop_width := 50, crop_height := 50\<rparr>)
     = (Inr photoCropped,
        (staleStore(photoStaged := None))(photoCropped \<mapsto> Picture 50 50 ''webp''))
   \<and> (\<exists>staged canonical out.
        staleStore photoStaged = Some staged
      \<and> (case staleStore photoCanonical of
            Some old \<Rightarrow> canonical = old
          | None \<Rightarrow> sharp_webp pictureSharp staged = Inr canonical)
      \<and> ((staleStore(photoStaged := None))(photoCropped \<mapsto> Picture 50 50 ''webp'')) photoCropped
           = Some out
      \<and> ((staleStore(photoStaged := None))(photoCropped \<mapsto> Picture 50 50 ''webp'')) photoCanonical
           = Some canonical)"
proof -
  have small_run:
    "cropImage Posix pictureSharp staleStore photoUpload
       (photoCrop\<lparr>crop_width := 50, crop_height := 50\<rparr>)
     = (Inr photoCropped,
        (staleStore(photoStaged := None))(photoCropped \<mapsto> Picture 50 50 ''webp''))"
  proof -
    have fmt: "sharp_toFormat pictureSharp DEFAULT_FORMAT = None"
      by (simp add: pictureSharp_def pictureToFormat_def knownFormats_def DEFAULT_FORMAT_def)
    have ext: "sharp_extract pictureSharp (Picture 100 100 ''webp'') 10 20 50 50 DEFAULT_FORMAT
                 = Inr (Picture 50 50 ''webp'')"
      by (simp add: pictureSharp_def DEFAULT_FORMAT_def)
    have tail: "cropConvertExtract Posix pictureSharp staleStore photoStaged ''photo''
                  photoCanonical 10 20 50 50 DEFAULT_FORMAT
                = (Inr photoCropped,
                   (staleStore(photoStaged := None))(photoCropped \<mapsto> Picture 50 50 ''webp''))"
      using staleStore_files photo_paths_distinct(1)
      by (simp add: cropConvertExtract_def convertToWebP_cases fmt ext sharpInput_def
          toFile_def Let_def photo_cropped)
    have "cropImage Posix pictureSharp staleStore photoUpload
            (photoCrop\<lparr>crop_width := 50, crop_height := 50\<rparr>)
          = catchAll ''Error cropping image: ''
              (cropConvertExtract Posix pictureSharp staleStore photoStaged ''photo''
                 photoCanonical 10 20 50 50 DEFAULT_FORMAT)"
      by (simp add: cropImage_checks[where fs = staleStore and filePath = photoStaged,
                      OF photo_paths staleStore_files(1) picture_metadata]
          photoCrop_def exceeds_def)
    then show ?thesis
      by (simp add: tail catchAll_def)
  qed
  note up = only_resolved_paths_change
      [where pf = Posix and cd = pictureSharp and fs = freshStore and upload = photoUpload
         and imageType = GAME and svc = "newService None"
         and filePath = photoStaged and fileBaseName = "''photo''"
         and originalOutputPath = photoCanonical, THEN conjunct1, rule_format,
       OF conjI[OF fresh_upload_run photo_paths]]
  note cr = only_resolved_paths_change
      [where pf = Posix and cd = pictureSharp and fs = staleStore and upload = photoUpload
         and c = "photoCrop\<lparr>crop_width := 50, crop_height := 50\<rparr>"
         and filePath = photoStaged and fileBaseName = "''photo''"
         and originalOutputPath = photoCanonical, THEN conjunct2, rule_format,
       OF conjI[OF small_run photo_paths]]
  from up have a: "\<exists>cfg staged canonical out.
        map_of ImageConfig GAME = Some cfg
      \<and> freshStore photoStaged = Some staged \<and> photoStaged \<noteq> photoCanonical
      \<and> (\<forall>p. p \<noteq> photoStaged \<and> p \<noteq> photoCanonical
              \<and> p \<noteq> getOutputPath Posix OUTPUT_DIR ''photo'' (cfg_suffix cfg) DEFAULT_FORMAT
            \<longrightarrow> (((freshStore(photoCanonical \<mapsto> Picture 500 400 ''webp''))(photoStaged := None))
                   (photoThumbnail \<mapsto> Picture 184 147 ''webp'')) p = freshStore p)"
    by blast
  from cr have b: "\<exists>staged canonical out.
        staleStore photoStaged = Some staged
      \<and> (case staleStore photoCanonical of
            Some old \<Rightarrow> canonical = old
          | None \<Rightarrow> sharp_webp pictureSharp staged = Inr canonical)
      \<and> ((staleStore(photoStaged := None))(photoCropped \<mapsto> Picture 50 50 ''webp'')) photoCropped
           = Some out
      \<and> ((staleStore(photoStaged := None))(photoCropped \<mapsto> Picture 50 50 ''webp'')) photoCanonical
           = Some canonical"
    using photo_paths_distinct(5) by blast
  show ?thesis
    using fresh_upload_run photo_paths small_run a b by blast
qed

end
